theory Spec2Isabelle
  imports Main "HOL-Library.Sublist" "HOL-Library.AList"
begin

section \<open>The voice-notes pipeline of \<^verbatim>\<open>main.py\<close>\<close>

text \<open>
  The script converts every \<^verbatim>\<open>.m4a\<close> file of an input directory to \<^verbatim>\<open>.wav\<close>, has it
  transcribed, joins the transcripts, asks for a summary, writes two output files and
  clears its working directories. Everything it does is an effect on the file system
  or a call to a collaborator, so the model threads a \<open>world\<close> through every function:
  the file system and the trace of effects so far. An exception is the \<open>Inl\<close> of a sum,
  returned together with the world at the moment it was raised.
\<close>

subsection \<open>Python string and path functions\<close>

type_synonym path = string

text \<open>\<^verbatim>\<open>str.replace(old, new)\<close>: every occurrence, left to right, without overlap.\<close>

function str_replace :: "string \<Rightarrow> string \<Rightarrow> string \<Rightarrow> string" where
  "str_replace old new [] = (if old = [] then new else [])"
| "str_replace old new (c # cs) =
     (if old = [] then new @ c # str_replace old new cs
      else if prefix old (c # cs)
        then new @ str_replace old new (drop (length old) (c # cs))
      else c # str_replace old new cs)"
  by pat_completeness auto
termination
  by (relation "measure (\<lambda>(old, new, s). length s)") auto

text \<open>\<^verbatim>\<open>sep.join(xs)\<close>.\<close>

fun str_join :: "string \<Rightarrow> string list \<Rightarrow> string" where
  "str_join sep [] = []"
| "str_join sep [x] = x"
| "str_join sep (x # y # ys) = x @ sep @ str_join sep (y # ys)"

text \<open>
  \<^verbatim>\<open>str.strip()\<close> on the characters of the byte model: tab, line feed, vertical tab,
  form feed, carriage return, the four separators 0x1C to 0x1F and the space.
\<close>

definition is_space :: "char \<Rightarrow> bool" where
  "is_space c = (c \<in> set [CHR 0x09, CHR 0x0A, CHR 0x0B, CHR 0x0C, CHR 0x0D,
                            CHR 0x1C, CHR 0x1D, CHR 0x1E, CHR 0x1F, CHR 0x20])"

definition strip :: "string \<Rightarrow> string" where
  "strip s = rev (dropWhile is_space (rev (dropWhile is_space s)))"

text \<open>\<^verbatim>\<open>os.path.join(a, b)\<close> and \<^verbatim>\<open>os.path.basename(p)\<close> of \<^verbatim>\<open>posixpath\<close>.\<close>

definition path_join :: "path \<Rightarrow> path \<Rightarrow> path" where
  "path_join a b =
     (if prefix ''/'' b then b
      else if a = [] \<or> suffix ''/'' a then a @ b
      else a @ ''/'' @ b)"

definition basename :: "path \<Rightarrow> path" where
  "basename p = rev (takeWhile (\<lambda>c. c \<noteq> CHR ''/'') (rev p))"

subsection \<open>The file system, the trace and the collaborators\<close>

datatype node = File string | Dir

type_synonym filesystem = "(path \<times> node) list"

datatype error =
    DecodeError path
  | TranscriptionError path
  | SummaryError
  | FileNotFoundError path
  | IsADirectoryError path
  | NotADirectoryError path
  | DestinationExists path
  | Pending

datatype event =
    ListDir path
  | Submit path
  | Convert path
  | Transcribe path
  | Summarize string
  | WriteFile path string
  | Remove path
  | Move path path

record world =
  fs :: filesystem
  trace :: "event list"

text \<open>
  The three hosted or native collaborators are parameters: the codec maps the bytes of
  an \<^verbatim>\<open>.m4a\<close> file to the bytes of the \<^verbatim>\<open>.wav\<close> file, the transcriber maps an uploaded file
  to its text, the completion service maps a prompt to the content of its first choice.
  \<open>None\<close> is the collaborator raising.
\<close>

record services =
  codec :: "string \<Rightarrow> string option"
  transcriber :: "path \<Rightarrow> string \<Rightarrow> string option"
  completion :: "string \<Rightarrow> string option"

text \<open>The module's globals (lines 19 to 31); the timestamp is read once, at import.\<close>

record config =
  incoming_bucket :: path
  intermediate_transcripts :: path
  output_folder :: path
  datetime_prefix :: string

definition consolidated_transcript_file :: "config \<Rightarrow> path" where
  "consolidated_transcript_file cfg =
     path_join (intermediate_transcripts cfg) ''total_transcript.md''"

definition transcript_file :: "config \<Rightarrow> path" where
  "transcript_file cfg =
     path_join (output_folder cfg) (datetime_prefix cfg @ ''-transcripts.md'')"

definition summary_action_file :: "config \<Rightarrow> path" where
  "summary_action_file cfg =
     path_join (output_folder cfg) (datetime_prefix cfg @ ''-summary_action.md'')"

subsection \<open>File operations\<close>

text \<open>
  A path is the string the program builds; a directory is listed under the string it
  was configured with. Opening a file for writing creates or truncates it and fails on
  a directory; the directory it lies in is taken to exist.
\<close>

definition log_event :: "event \<Rightarrow> world \<Rightarrow> world" where
  "log_event e w = w\<lparr>trace := trace w @ [e]\<rparr>"

definition path_exists :: "path \<Rightarrow> world \<Rightarrow> bool" where
  "path_exists p w = (map_of (fs w) p \<noteq> None)"

definition isfile :: "path \<Rightarrow> world \<Rightarrow> bool" where
  "isfile p w = (case map_of (fs w) p of Some (File c) \<Rightarrow> True | _ \<Rightarrow> False)"

definition isdir :: "path \<Rightarrow> world \<Rightarrow> bool" where
  "isdir p w = (map_of (fs w) p = Some Dir)"

definition read_file :: "path \<Rightarrow> world \<Rightarrow> error + string" where
  "read_file p w =
     (case map_of (fs w) p of
        None \<Rightarrow> Inl (FileNotFoundError p)
      | Some Dir \<Rightarrow> Inl (IsADirectoryError p)
      | Some (File c) \<Rightarrow> Inr c)"

definition write_file :: "path \<Rightarrow> string \<Rightarrow> world \<Rightarrow> (error + unit) \<times> world" where
  "write_file p c w =
     (if isdir p w then (Inl (IsADirectoryError p), w)
      else (Inr (), w\<lparr>fs := AList.update p (File c) (fs w),
                       trace := trace w @ [WriteFile p c]\<rparr>))"

definition remove :: "path \<Rightarrow> world \<Rightarrow> (error + unit) \<times> world" where
  "remove p w =
     (case map_of (fs w) p of
        None \<Rightarrow> (Inl (FileNotFoundError p), w)
      | Some Dir \<Rightarrow> (Inl (IsADirectoryError p), w)
      | Some (File c) \<Rightarrow>
          (Inr (), w\<lparr>fs := AList.delete p (fs w), trace := trace w @ [Remove p]\<rparr>))"

text \<open>
  \<^verbatim>\<open>os.listdir(d)\<close>: the names of the entries directly in \<open>d\<close>, in the order the file
  system holds them.
\<close>

definition dir_prefix :: "path \<Rightarrow> path" where
  "dir_prefix d = (if d = [] \<or> suffix ''/'' d then d else d @ ''/'')"

definition child_name :: "path \<Rightarrow> path \<Rightarrow> string option" where
  "child_name d p =
     (if prefix (dir_prefix d) p
      then (let n = drop (length (dir_prefix d)) p
            in if n \<noteq> [] \<and> CHR ''/'' \<notin> set n then Some n else None)
      else None)"

definition listdir :: "path \<Rightarrow> world \<Rightarrow> (error + string list) \<times> world" where
  "listdir d w =
     (case map_of (fs w) d of
        None \<Rightarrow> (Inl (FileNotFoundError d), w)
      | Some (File c) \<Rightarrow> (Inl (NotADirectoryError d), w)
      | Some Dir \<Rightarrow>
          (Inr (List.map_filter (child_name d) (map fst (fs w))), log_event (ListDir d) w))"

text \<open>
  \<^verbatim>\<open>shutil.move(src, dst)\<close> for a regular file \<open>src\<close>: into \<open>dst\<close> when that is a
  directory (refusing to overwrite there), else a rename that replaces \<open>dst\<close>.
  The program only moves the consolidated transcript, which it has just read or written.
\<close>

definition move :: "path \<Rightarrow> path \<Rightarrow> world \<Rightarrow> (error + path) \<times> world" where
  "move src dst w =
     (let real_dst = (if isdir dst w then path_join dst (basename src) else dst)
      in if isdir dst w \<and> path_exists real_dst w then (Inl (DestinationExists real_dst), w)
         else (case map_of (fs w) src of
                 None \<Rightarrow> (Inl (FileNotFoundError src), w)
               | Some Dir \<Rightarrow> (Inl (IsADirectoryError src), w)
               | Some (File c) \<Rightarrow>
                   (Inr real_dst,
                    w\<lparr>fs := AList.update real_dst (File c) (AList.delete src (fs w)),
                      trace := trace w @ [Move src real_dst]\<rparr>)))"

subsection \<open>The per-file pipeline (lines 36 to 57 and 78 to 92)\<close>

text \<open>
  The local \<^verbatim>\<open>transcript_path\<close>, computed by the same expression at lines 45 and 81 from
  the path the function was given.
\<close>

definition transcript_path_of :: "config \<Rightarrow> path \<Rightarrow> path" where
  "transcript_path_of cfg file_path =
     path_join (intermediate_transcripts cfg) (basename file_path @ ''.txt'')"

definition convert_m4a_to_wav :: "services \<Rightarrow> path \<Rightarrow> world \<Rightarrow> (error + path) \<times> world" where
  "convert_m4a_to_wav sv file_path w =
     (let w0 = log_event (Convert file_path) w
      in case read_file file_path w0 of
           Inl e \<Rightarrow> (Inl e, w0)
         | Inr bytes \<Rightarrow>
             (case codec sv bytes of
                None \<Rightarrow> (Inl (DecodeError file_path), w0)
              | Some audio \<Rightarrow>
                  (let wav_path = str_replace ''.m4a'' ''.wav'' file_path
                   in case write_file wav_path audio w0 of
                        (Inl e, w1) \<Rightarrow> (Inl e, w1)
                      | (Inr u, w1) \<Rightarrow> (Inr wav_path, w1))))"

definition transcribe_audio ::
  "config \<Rightarrow> services \<Rightarrow> path \<Rightarrow> world \<Rightarrow> (error + string) \<times> world" where
  "transcribe_audio cfg sv file_path w =
     (let transcript_path = transcript_path_of cfg file_path
      in if path_exists transcript_path w then (read_file transcript_path w, w)
         else (let w0 = log_event (Transcribe file_path) w
               in case read_file file_path w0 of
                    Inl e \<Rightarrow> (Inl e, w0)
                  | Inr bytes \<Rightarrow>
                      (case transcriber sv file_path bytes of
                         None \<Rightarrow> (Inl (TranscriptionError file_path), w0)
                       | Some text \<Rightarrow>
                           (case write_file transcript_path text w0 of
                              (Inl e, w1) \<Rightarrow> (Inl e, w1)
                            | (Inr u, w1) \<Rightarrow> (Inr text, w1)))))"

definition process_file ::
  "config \<Rightarrow> services \<Rightarrow> path \<Rightarrow> world \<Rightarrow> (error + string) \<times> world" where
  "process_file cfg sv file_path w =
     (let transcript_path = transcript_path_of cfg file_path
      in if path_exists transcript_path w then (read_file transcript_path w, w)
         else (case convert_m4a_to_wav sv file_path w of
                 (Inl e, w1) \<Rightarrow> (Inl e, w1)
               | (Inr wav_path, w1) \<Rightarrow>
                   (case transcribe_audio cfg sv wav_path w1 of
                      (Inl e, w2) \<Rightarrow> (Inl e, w2)
                    | (Inr transcription, w2) \<Rightarrow>
                        (case remove wav_path w2 of
                           (Inl e, w3) \<Rightarrow> (Inl e, w3)
                         | (Inr u, w3) \<Rightarrow> (Inr transcription, w3)))))"

subsection \<open>The batch (lines 102 to 122)\<close>

text \<open>
  The executor runs every submitted task; which one finishes next is not the program's
  choice. A schedule is a list of picks: each step takes the pending task at position
  \<open>c mod (number pending)\<close> and runs it to its end, storing what it returned or raised in
  its own future. Tasks are interleaved at the grain of whole tasks.
\<close>

definition pick :: "nat list \<Rightarrow> nat \<Rightarrow> nat" where
  "pick sched n = (case sched of [] \<Rightarrow> 0 | c # cs \<Rightarrow> c mod n)"

definition without :: "nat \<Rightarrow> 'a list \<Rightarrow> 'a list" where
  "without k xs = take k xs @ drop (Suc k) xs"

function run_tasks ::
  "config \<Rightarrow> services \<Rightarrow> nat list \<Rightarrow> (nat \<times> path) list \<Rightarrow> (error + string) option list
     \<Rightarrow> world \<Rightarrow> (error + string) option list \<times> world" where
  "run_tasks cfg sv sched [] futures w = (futures, w)"
| "run_tasks cfg sv sched (t # ts) futures w =
     (let k = pick sched (length (t # ts))
      in case process_file cfg sv (snd ((t # ts) ! k)) w of
           (r, w') \<Rightarrow>
             run_tasks cfg sv (tl sched) (without k (t # ts))
               (futures[fst ((t # ts) ! k) := Some r]) w')"
  by pat_completeness auto
termination
  by (relation "measure (\<lambda>(cfg, sv, sched, pending, futures, w). length pending)")
     (auto simp: without_def pick_def split: list.splits)

text \<open>
  The loop over the futures, in the order they were submitted: \<^verbatim>\<open>future.result()\<close>
  returns the task's value or raises what the task raised. On a future whose task has
  not run it would wait; every schedule above runs every task, so that case does not
  arise after \<open>run_tasks\<close>.
\<close>

fun gather :: "(error + string) option list \<Rightarrow> string list \<Rightarrow> error + string list" where
  "gather [] transcription_texts = Inr transcription_texts"
| "gather (future # futures) transcription_texts =
     (case future of
        None \<Rightarrow> Inl Pending
      | Some (Inl e) \<Rightarrow> Inl e
      | Some (Inr transcription) \<Rightarrow>
          gather futures
            (if transcription \<noteq> [] then transcription_texts @ [transcription]
             else transcription_texts))"

definition eligible_paths :: "config \<Rightarrow> string list \<Rightarrow> path list" where
  "eligible_paths cfg names =
     map (path_join (incoming_bucket cfg)) (filter (suffix ''.m4a'') names)"

definition run_batch ::
  "config \<Rightarrow> services \<Rightarrow> nat list \<Rightarrow> world
     \<Rightarrow> (error + (error + string) option list) \<times> world" where
  "run_batch cfg sv sched w =
     (case listdir (incoming_bucket cfg) w of
        (Inl e, w0) \<Rightarrow> (Inl e, w0)
      | (Inr names, w0) \<Rightarrow>
          (let paths = eligible_paths cfg names;
               w1 = w0\<lparr>trace := trace w0 @ map Submit paths\<rparr>
           in case run_tasks cfg sv sched (enumerate 0 paths)
                     (replicate (length paths) None) w1 of
                (futures, w2) \<Rightarrow> (Inr futures, w2)))"

definition main_transcribe ::
  "config \<Rightarrow> services \<Rightarrow> nat list \<Rightarrow> world \<Rightarrow> (error + string) \<times> world" where
  "main_transcribe cfg sv sched w =
     (if path_exists (consolidated_transcript_file cfg) w
      then (read_file (consolidated_transcript_file cfg) w, w)
      else (case run_batch cfg sv sched w of
              (Inl e, w2) \<Rightarrow> (Inl e, w2)
            | (Inr futures, w2) \<Rightarrow>
                (case gather futures [] of
                   Inl e \<Rightarrow> (Inl e, w2)
                 | Inr transcription_texts \<Rightarrow>
                     (let combined_transcription =
                            str_join ''\<newline>\<newline>'' transcription_texts
                      in case write_file (consolidated_transcript_file cfg)
                                combined_transcription w2 of
                           (Inl e, w3) \<Rightarrow> (Inl e, w3)
                         | (Inr u, w3) \<Rightarrow> (Inr combined_transcription, w3)))))"

subsection \<open>Summary and finalisation (lines 59 to 76 and 124 to 144)\<close>

definition prompt_of :: "string \<Rightarrow> string" where
  "prompt_of transcriptions =
     ''\<newline>    Here is a set of transcriptions from various voice notes. Please provide a summary of the key points, and list actionable items.\<newline>    \<newline>    Transcriptions:\<newline>    ''
     @ transcriptions @ ''\<newline>    ''"

definition generate_summary_and_action ::
  "services \<Rightarrow> string \<Rightarrow> world \<Rightarrow> (error + string) \<times> world" where
  "generate_summary_and_action sv transcriptions w =
     (let w0 = log_event (Summarize transcriptions) w
      in case completion sv (prompt_of transcriptions) of
           None \<Rightarrow> (Inl SummaryError, w0)
         | Some content \<Rightarrow> (Inr (strip content), w0))"

fun remove_files :: "path \<Rightarrow> string list \<Rightarrow> world \<Rightarrow> (error + unit) \<times> world" where
  "remove_files d [] w = (Inr (), w)"
| "remove_files d (filename # rest) w =
     (let file_path = path_join d filename
      in if isfile file_path w
         then (case remove file_path w of
                 (Inl e, w') \<Rightarrow> (Inl e, w')
               | (Inr u, w') \<Rightarrow> remove_files d rest w')
         else remove_files d rest w)"

definition clear_directory :: "path \<Rightarrow> world \<Rightarrow> (error + unit) \<times> world" where
  "clear_directory d w =
     (case listdir d w of
        (Inl e, w0) \<Rightarrow> (Inl e, w0)
      | (Inr names, w0) \<Rightarrow> remove_files d names w0)"

definition main_finalize ::
  "config \<Rightarrow> services \<Rightarrow> string \<Rightarrow> world \<Rightarrow> (error + unit) \<times> world" where
  "main_finalize cfg sv combined_transcription w =
     (case generate_summary_and_action sv combined_transcription w of
        (Inl e, w0) \<Rightarrow> (Inl e, w0)
      | (Inr summary_and_action, w0) \<Rightarrow>
          (case write_file (summary_action_file cfg) summary_and_action w0 of
             (Inl e, w1) \<Rightarrow> (Inl e, w1)
           | (Inr u, w1) \<Rightarrow>
               (case move (consolidated_transcript_file cfg) (transcript_file cfg) w1 of
                  (Inl e, w2) \<Rightarrow> (Inl e, w2)
                | (Inr real_dst, w2) \<Rightarrow>
                    (case clear_directory (incoming_bucket cfg) w2 of
                       (Inl e, w3) \<Rightarrow> (Inl e, w3)
                     | (Inr u, w3) \<Rightarrow>
                         clear_directory (intermediate_transcripts cfg) w3))))"

definition main :: "config \<Rightarrow> services \<Rightarrow> nat list \<Rightarrow> world \<Rightarrow> (error + unit) \<times> world" where
  "main cfg sv sched w =
     (case main_transcribe cfg sv sched w of
        (Inl e, w1) \<Rightarrow> (Inl e, w1)
      | (Inr combined_transcription, w1) \<Rightarrow> main_finalize cfg sv combined_transcription w1)"

subsection \<open>Vocabulary of the statements\<close>


fun task_event :: "event \<Rightarrow> bool" where
  "task_event (Convert p) = True"
| "task_event (Transcribe p) = True"
| "task_event (WriteFile p c) = True"
| "task_event (Remove p) = True"
| "task_event e = False"

text \<open>\<open>extends P w w'\<close>: the trace of \<open>w'\<close> is that of \<open>w\<close> followed by events that satisfy \<open>P\<close>.\<close>

definition extends :: "(event \<Rightarrow> bool) \<Rightarrow> world \<Rightarrow> world \<Rightarrow> bool" where
  "extends P w w' =
     (prefix (trace w) (trace w') \<and> list_all P (drop (length (trace w)) (trace w')))"

text \<open>The configuration the script has when no environment variable is set, at some minute.\<close>

definition example_config :: config where
  "example_config =
     \<lparr>incoming_bucket = ''./incoming_audio'',
      intermediate_transcripts = ''./intermediate_transcripts'',
      output_folder = ''./output'',
      datetime_prefix = ''2024-01-01-10-00''\<rparr>"

text \<open>Collaborators that all answer, and collaborators that all raise.\<close>

definition example_services :: services where
  "example_services =
     \<lparr>codec = (\<lambda>b. Some (''wav:'' @ b)),
      transcriber = (\<lambda>p b. if b = ''wav:B'' then Some [] else Some (''text of '' @ b)),
      completion = (\<lambda>p. Some ''  summary  '')\<rparr>"


definition base_dirs :: filesystem where
  "base_dirs =
     [(''./incoming_audio'', Dir), (''./intermediate_transcripts'', Dir), (''./output'', Dir)]"



text \<open>
  \<open>steps W K P w w'\<close>: from \<open>w\<close> to \<open>w'\<close> no directory appeared or vanished, every node
  outside \<open>W\<close> that existed is still there unchanged, every path outside \<open>W \<union> K\<close> is as it
  was, and the new events satisfy \<open>P\<close>. \<open>W\<close> holds the paths that may be overwritten or
  deleted, \<open>K\<close> the paths that may only be created.
\<close>

definition steps :: "path set \<Rightarrow> path set \<Rightarrow> (event \<Rightarrow> bool) \<Rightarrow> world \<Rightarrow> world \<Rightarrow> bool" where
  "steps W K P w w' =
     ((\<forall>p. isdir p w' = isdir p w)
      \<and> (\<forall>p n. p \<notin> W \<longrightarrow> map_of (fs w) p = Some n \<longrightarrow> map_of (fs w') p = Some n)
      \<and> (\<forall>p. p \<notin> W \<union> K \<longrightarrow> map_of (fs w') p = map_of (fs w) p)
      \<and> extends P w w')"

text \<open>The local \<^verbatim>\<open>wav_path\<close> of line 39.\<close>

definition wav_path_of :: "path \<Rightarrow> path" where
  "wav_path_of file_path = str_replace ''.m4a'' ''.wav'' file_path"

text \<open>The effects the batch may record: anything but a summary request or a move.\<close>

fun batch_event :: "event \<Rightarrow> bool" where
  "batch_event (Summarize c) = False"
| "batch_event (Move p q) = False"
| "batch_event e = True"

text \<open>What \<^verbatim>\<open>os.listdir\<close> returns for an existing directory, and the paths line 109 submits.\<close>

definition entries :: "path \<Rightarrow> world \<Rightarrow> string list" where
  "entries d w = List.map_filter (child_name d) (map fst (fs w))"

definition batch_paths :: "config \<Rightarrow> world \<Rightarrow> path list" where
  "batch_paths cfg w = eligible_paths cfg (entries (incoming_bucket cfg) w)"

text \<open>
  Worlds for the examples: two notes and a subdirectory; two notes beside a recording
  that the user keeps under the name the converter will pick.
\<close>

definition example_world :: world where
  "example_world =
     \<lparr>fs = base_dirs @
            [(''./incoming_audio/a.m4a'', File ''A''),
             (''./incoming_audio/b.m4a'', File ''B''),
             (''./incoming_audio/sub'', Dir),
             (''./incoming_audio/sub/c.m4a'', File ''C'')],
      trace = []\<rparr>"

definition notes_world :: world where
  "notes_world =
     \<lparr>fs = base_dirs @
            [(''./incoming_audio/a.m4a'', File ''A''),
             (''./incoming_audio/c.m4a'', File ''C''),
             (''./incoming_audio/a.wav'', File ''my own recording'')],
      trace = []\<rparr>"


text \<open>
  Collaborators whose transcriber fails on the third note, and collaborators whose
  completion service does not answer.
\<close>

definition flaky_services :: services where
  "flaky_services =
     \<lparr>codec = (\<lambda>b. Some (''wav:'' @ b)),
      transcriber = (\<lambda>p b. if b = ''wav:C'' then None else Some (''text of '' @ b)),
      completion = (\<lambda>p. None)\<rparr>"


section \<open>Properties\<close>

subsection \<open>Traces\<close>

lemma extends_iff: "extends P w w' = (\<exists>evs. trace w' = trace w @ evs \<and> list_all P evs)"
  by (auto simp: extends_def prefix_def)

lemma extends_refl: "trace w' = trace w \<Longrightarrow> extends P w w'"
  by (simp add: extends_iff)

lemma extends_trans: "extends P w w1 \<Longrightarrow> extends P w1 w2 \<Longrightarrow> extends P w w2"
  by (auto simp: extends_iff)

lemma extends_mono: "extends P w w' \<Longrightarrow> (\<And>e. P e \<Longrightarrow> Q e) \<Longrightarrow> extends Q w w'"
  by (auto simp: extends_iff list_all_iff)

lemma extends_step: "trace w' = trace w @ [e] \<Longrightarrow> P e \<Longrightarrow> extends P w w'"
  by (simp add: extends_iff)









subsection \<open>Resuming from the consolidated transcript\<close>


subsection \<open>Frames of the per-file pipeline\<close>

lemma steps_refl: "fs w' = fs w \<Longrightarrow> trace w' = trace w \<Longrightarrow> steps W K P w w'"
  by (simp add: steps_def isdir_def extends_refl)

lemma steps_trans: "steps W K P w w1 \<Longrightarrow> steps W K P w1 w2 \<Longrightarrow> steps W K P w w2"
  unfolding steps_def using extends_trans by (metis (no_types, lifting))

lemma steps_mono:
  "steps W K P w w' \<Longrightarrow> W \<subseteq> W' \<Longrightarrow> K \<subseteq> K' \<Longrightarrow> (\<And>e. P e \<Longrightarrow> Q e) \<Longrightarrow> steps W' K' Q w w'"
  unfolding steps_def using extends_mono [of P w w' Q] by (auto simp: subset_iff)

lemma steps_log: "steps W K P w w' \<Longrightarrow> P e \<Longrightarrow> steps W K P w (log_event e w')" 
  by (auto simp: steps_def log_event_def isdir_def extends_iff)

lemma write_file_steps:
  "P (WriteFile p c) \<Longrightarrow> steps {p} {} P w (snd (write_file p c w))"
  by (simp add: steps_def write_file_def isdir_def extends_iff update_conv')

lemma write_new_file_steps:
  "P (WriteFile p c) \<Longrightarrow> \<not> path_exists p w \<Longrightarrow> steps {} {p} P w (snd (write_file p c w))"
  by (simp add: steps_def write_file_def isdir_def path_exists_def extends_iff update_conv')

lemma remove_steps: "P (Remove p) \<Longrightarrow> steps {p} {} P w (snd (remove p w))"
  by (auto simp: steps_def remove_def isdir_def extends_iff delete_conv' split: option.splits node.splits)

lemma convert_steps:
  "steps {wav_path_of f} {} task_event w (snd (convert_m4a_to_wav sv f w))"
proof -
  let ?w0 = "log_event (Convert f) w"
  have s0: "steps {wav_path_of f} {} task_event w ?w0"
    using steps_log [OF steps_refl [of w w]] by simp
  have s1: "steps {wav_path_of f} {} task_event ?w0 (snd (write_file (wav_path_of f) a ?w0))" for a
    using write_file_steps [of task_event] by simp
  have "snd (convert_m4a_to_wav sv f w) = ?w0
      \<or> (\<exists>a. snd (convert_m4a_to_wav sv f w) = snd (write_file (wav_path_of f) a ?w0))"
    apply (auto simp: convert_m4a_to_wav_def wav_path_of_def Let_def split: sum.splits option.splits prod.splits)
     apply (metis snd_conv)+
    done
  then show ?thesis using s0 s1 steps_trans by metis
qed

lemma convert_result:
  "convert_m4a_to_wav sv f w = (Inr q, w1) \<Longrightarrow> q = wav_path_of f"
  by (auto simp: convert_m4a_to_wav_def wav_path_of_def Let_def split: sum.splits option.splits prod.splits)

lemma transcribe_steps:
  "steps {} {transcript_path_of cfg q} task_event w (snd (transcribe_audio cfg sv q w))"
proof (cases "path_exists (transcript_path_of cfg q) w")
  case True
  then show ?thesis by (simp add: transcribe_audio_def steps_refl)
next
  case False
  let ?w0 = "log_event (Transcribe q) w"
  have ne: "\<not> path_exists (transcript_path_of cfg q) ?w0"
    using False by (simp add: path_exists_def log_event_def)
  have s0: "steps {} {transcript_path_of cfg q} task_event w ?w0"
    using steps_log [OF steps_refl [of w w]] by simp
  have s1: "steps {} {transcript_path_of cfg q} task_event ?w0
              (snd (write_file (transcript_path_of cfg q) t ?w0))" for t
    using write_new_file_steps [of task_event, OF _ ne] by simp
  have "snd (transcribe_audio cfg sv q w) = ?w0
      \<or> (\<exists>t. snd (transcribe_audio cfg sv q w) = snd (write_file (transcript_path_of cfg q) t ?w0))"
    using False
    apply (auto simp: transcribe_audio_def Let_def split: sum.splits option.splits prod.splits)
     apply (metis snd_conv)+
    done
  then show ?thesis using s0 s1 steps_trans by metis
qed

lemma process_file_steps:
  "steps {wav_path_of f} {transcript_path_of cfg (wav_path_of f)} task_event w
     (snd (process_file cfg sv f w))"
proof (cases "path_exists (transcript_path_of cfg f) w")
  case True
  then show ?thesis by (simp add: process_file_def steps_refl)
next
  case False
  let ?W = "{wav_path_of f}" and ?K = "{transcript_path_of cfg (wav_path_of f)}"
  obtain r1 w1 where c: "convert_m4a_to_wav sv f w = (r1, w1)"
    by (cases "convert_m4a_to_wav sv f w")
  have s1: "steps ?W ?K task_event w w1"
    using convert_steps [of f w sv] c steps_mono [of ?W "{}" task_event w w1 ?W ?K task_event] by simp
  show ?thesis
  proof (cases r1)
    case (Inl e)
    then show ?thesis using False c s1 by (simp add: process_file_def)
  next
    case (Inr q)
    have q: "q = wav_path_of f" using c Inr convert_result by simp
    obtain r2 w2 where t: "transcribe_audio cfg sv q w1 = (r2, w2)"
      by (cases "transcribe_audio cfg sv q w1")
    have "steps {} ?K task_event w1 w2" using transcribe_steps [of cfg q w1 sv] t q by simp
    then have "steps ?W ?K task_event w1 w2"
      using steps_mono [of "{}" ?K task_event w1 w2 ?W ?K task_event] by simp
    then have s2: "steps ?W ?K task_event w w2" using s1 steps_trans by blast
    show ?thesis
    proof (cases r2)
      case (Inl e)
      then show ?thesis using False c \<open>r1 = Inr q\<close> t s2 by (simp add: process_file_def)
    next
      case (Inr tr)
      have "steps ?W {} task_event w2 (snd (remove q w2))"
        using remove_steps [of task_event q w2] q by simp
      then have "steps ?W ?K task_event w2 (snd (remove q w2))"
        using steps_mono [of ?W "{}" task_event w2 _ ?W ?K task_event] by simp
      then have s3: "steps ?W ?K task_event w (snd (remove q w2))" using s2 steps_trans by blast
      show ?thesis using False c \<open>r1 = Inr q\<close> t Inr s3
        by (auto simp: process_file_def split: prod.splits sum.splits)
    qed
  qed
qed

subsection \<open>The schedule\<close>

lemma pick_less: "0 < n \<Longrightarrow> pick sched n < n"
  by (simp add: pick_def split: list.splits)

lemma without_split:
  assumes "k < length xs"
  shows "xs = take k xs @ xs ! k # drop (Suc k) xs"
  using assms by (rule id_take_nth_drop)

lemma set_without:
  assumes "k < length xs"
  shows "set xs = insert (xs ! k) (set (without k xs))"
proof -
  have "set xs = set (take k xs @ xs ! k # drop (Suc k) xs)"
    using without_split [OF assms] by simp
  then show ?thesis by (simp add: without_def)
qed

lemma distinct_without:
  assumes "k < length xs" "distinct (map fst xs)"
  shows "distinct (map fst (without k xs)) \<and> fst (xs ! k) \<notin> fst ` set (without k xs)"
proof -
  have "distinct (map fst (take k xs @ xs ! k # drop (Suc k) xs))"
    using without_split [OF assms(1)] assms(2) by simp
  then show ?thesis by (auto simp: without_def)
qed

lemma run_tasks_steps:
  "steps (wav_path_of ` snd ` set pending)
         ((\<lambda>f. transcript_path_of cfg (wav_path_of f)) ` snd ` set pending)
         task_event w (snd (run_tasks cfg sv sched pending futures w))"
proof (induction cfg sv sched pending futures w rule: run_tasks.induct)
  case (1 cfg sv sched futures w)
  show ?case by (simp add: steps_refl)
next
  case (2 cfg sv sched t ts futures w)
  let ?k = "pick sched (length (t # ts))"
  let ?e = "(t # ts) ! ?k"
  let ?W = "wav_path_of ` snd ` set (t # ts)"
  let ?K = "(\<lambda>f. transcript_path_of cfg (wav_path_of f)) ` snd ` set (t # ts)"
  have k: "?k < length (t # ts)" using pick_less [of "length (t # ts)" sched] by simp
  have mem: "set (t # ts) = insert ?e (set (without ?k (t # ts)))"
    using set_without [OF k] .
  obtain r w1 where p: "process_file cfg sv (snd ?e) w = (r, w1)"
    by (cases "process_file cfg sv (snd ?e) w")
  have "steps {wav_path_of (snd ?e)} {transcript_path_of cfg (wav_path_of (snd ?e))} task_event w w1"
    using process_file_steps [of "snd ?e" cfg w sv] p by simp
  then have s1: "steps ?W ?K task_event w w1"
    by (rule steps_mono) (use mem in auto)
  have "steps (wav_path_of ` snd ` set (without ?k (t # ts)))
          ((\<lambda>f. transcript_path_of cfg (wav_path_of f)) ` snd ` set (without ?k (t # ts)))
          task_event w1
          (snd (run_tasks cfg sv (tl sched) (without ?k (t # ts))
                  (futures[fst ?e := Some r]) w1))"
    using "2.IH" [OF refl p [symmetric]] .
  then have s2: "steps ?W ?K task_event w1
          (snd (run_tasks cfg sv (tl sched) (without ?k (t # ts))
                  (futures[fst ?e := Some r]) w1))"
    by (rule steps_mono) (use mem in auto)
  show ?case using steps_trans [OF s1 s2] p by (simp add: Let_def)
qed

lemma run_tasks_futures:
  assumes "distinct (map fst pending)" "\<forall>x\<in>set pending. fst x < length futures"
  shows "length (fst (run_tasks cfg sv sched pending futures w)) = length futures
       \<and> (\<forall>x\<in>set pending. \<exists>w0.
             fst (run_tasks cfg sv sched pending futures w) ! fst x
               = Some (fst (process_file cfg sv (snd x) w0)))
       \<and> (\<forall>i. i \<notin> fst ` set pending \<longrightarrow>
             fst (run_tasks cfg sv sched pending futures w) ! i = futures ! i)"
  using assms
proof (induction cfg sv sched pending futures w rule: run_tasks.induct)
  case (1 cfg sv sched futures w)
  show ?case by simp
next
  case (2 cfg sv sched t ts futures w)
  let ?k = "pick sched (length (t # ts))"
  let ?e = "(t # ts) ! ?k"
  let ?rest = "without ?k (t # ts)"
  have k: "?k < length (t # ts)" using pick_less [of "length (t # ts)" sched] by simp
  have mem: "set (t # ts) = insert ?e (set ?rest)" using set_without [OF k] .
  have d: "distinct (map fst ?rest)" "fst ?e \<notin> fst ` set ?rest"
    using distinct_without [OF k "2.prems"(1)] by simp_all
  obtain r w1 where p: "process_file cfg sv (snd ?e) w = (r, w1)"
    by (cases "process_file cfg sv (snd ?e) w")
  let ?f1 = "futures[fst ?e := Some r]"
  let ?res = "fst (run_tasks cfg sv (tl sched) ?rest ?f1 w1)"
  have e_lt: "fst ?e < length futures" using "2.prems"(2) mem by blast
  have "\<forall>x\<in>set ?rest. fst x < length futures" using "2.prems"(2) mem by blast
  then have b: "\<forall>x\<in>set ?rest. fst x < length ?f1" by simp
  have ih: "length ?res = length ?f1
       \<and> (\<forall>x\<in>set ?rest. \<exists>w0. ?res ! fst x = Some (fst (process_file cfg sv (snd x) w0)))
       \<and> (\<forall>i. i \<notin> fst ` set ?rest \<longrightarrow> ?res ! i = ?f1 ! i)"
    using "2.IH" [OF refl p [symmetric] d(1) b] .
  have eq: "fst (run_tasks cfg sv sched (t # ts) futures w) = ?res"
    using p by (simp add: Let_def)
  have c1: "length ?res = length futures" using ih by simp
  have "?res ! fst ?e = ?f1 ! fst ?e" using ih d(2) by blast
  then have "?res ! fst ?e = Some (fst (process_file cfg sv (snd ?e) w))"
    using e_lt p by simp
  then have c2: "\<forall>x\<in>set (t # ts). \<exists>w0. ?res ! fst x = Some (fst (process_file cfg sv (snd x) w0))"
    using ih mem by (metis insertE)
  have c3: "\<forall>i. i \<notin> fst ` set (t # ts) \<longrightarrow> ?res ! i = futures ! i"
  proof (intro allI impI)
    fix i assume i: "i \<notin> fst ` set (t # ts)"
    have e_in: "?e \<in> set (t # ts)" and sub: "set ?rest \<subseteq> set (t # ts)"
      using mem by blast+
    have i1: "i \<noteq> fst ?e" using i e_in by (metis imageI)
    have i2: "i \<notin> fst ` set ?rest" using i sub by blast
    have "?res ! i = ?f1 ! i" using ih i2 by blast
    then show "?res ! i = futures ! i" using i1 by simp
  qed
  show ?case using eq c1 c2 c3 by simp
qed

subsection \<open>The batch\<close>

lemma task_event_batch: "task_event e \<Longrightarrow> batch_event e"
  by (cases e) simp_all

lemma listdir_Inr:
  "listdir d w = (Inr names, w0) \<Longrightarrow> names = entries d w \<and> w0 = log_event (ListDir d) w"
  by (auto simp: listdir_def entries_def split: option.splits node.splits)

lemma listdir_Inl: "listdir d w = (Inl e, w0) \<Longrightarrow> w0 = w"
  by (auto simp: listdir_def split: option.splits node.splits)

lemma listdir_steps: "P (ListDir d) \<Longrightarrow> steps {} {} P w (snd (listdir d w))"
  by (auto simp: listdir_def steps_def isdir_def log_event_def extends_iff split: option.splits node.splits)

lemma submit_steps:
  "steps {} {} batch_event w (w\<lparr>trace := trace w @ map Submit ps\<rparr>)"
  by (simp add: steps_def isdir_def extends_iff list_all_iff image_iff)

lemma snd_enumerate: "snd ` set (enumerate n xs) = set xs"
  by (induction xs arbitrary: n) (auto simp: image_iff)

lemma run_batch_Inr:
  assumes "run_batch cfg sv sched w = (Inr futures, w2)"
  shows "\<exists>w1. fs w1 = fs w \<and> trace w1 = trace w @ ListDir (incoming_bucket cfg) # map Submit (batch_paths cfg w)
     \<and> run_tasks cfg sv sched (enumerate 0 (batch_paths cfg w))
          (replicate (length (batch_paths cfg w)) None) w1 = (futures, w2)"
proof -
  obtain r w0 where l: "listdir (incoming_bucket cfg) w = (r, w0)"
    by (cases "listdir (incoming_bucket cfg) w")
  show ?thesis
  proof (cases r)
    case (Inl e)
    then show ?thesis using assms l by (simp add: run_batch_def)
  next
    case (Inr names)
    have n: "names = entries (incoming_bucket cfg) w" "w0 = log_event (ListDir (incoming_bucket cfg)) w"
      using listdir_Inr l Inr by blast+
    let ?w1 = "w0\<lparr>trace := trace w0 @ map Submit (batch_paths cfg w)\<rparr>"
    have "fs ?w1 = fs w" "trace ?w1 = trace w @ ListDir (incoming_bucket cfg) # map Submit (batch_paths cfg w)"
      using n by (simp_all add: log_event_def)
    moreover have "run_tasks cfg sv sched (enumerate 0 (batch_paths cfg w))
          (replicate (length (batch_paths cfg w)) None) ?w1 = (futures, w2)"
      using assms l Inr n by (simp add: run_batch_def batch_paths_def Let_def split: prod.splits)
    ultimately show ?thesis by blast
  qed
qed

lemma run_batch_steps:
  "steps (wav_path_of ` set (batch_paths cfg w))
         ((\<lambda>f. transcript_path_of cfg (wav_path_of f)) ` set (batch_paths cfg w))
         batch_event w (snd (run_batch cfg sv sched w))"
proof -
  let ?W = "wav_path_of ` set (batch_paths cfg w)"
  let ?K = "(\<lambda>f. transcript_path_of cfg (wav_path_of f)) ` set (batch_paths cfg w)"
  obtain r w0 where l: "listdir (incoming_bucket cfg) w = (r, w0)"
    by (cases "listdir (incoming_bucket cfg) w")
  have "steps {} {} batch_event w w0"
    using listdir_steps [of batch_event "incoming_bucket cfg" w] l by simp
  then have s0: "steps ?W ?K batch_event w w0" by (rule steps_mono) auto
  show ?thesis
  proof (cases r)
    case (Inl e)
    then show ?thesis using l s0 by (simp add: run_batch_def)
  next
    case (Inr names)
    have n: "names = entries (incoming_bucket cfg) w" using listdir_Inr l Inr by blast
    let ?ps = "batch_paths cfg w"
    let ?w1 = "w0\<lparr>trace := trace w0 @ map Submit ?ps\<rparr>"
    have "steps {} {} batch_event w0 ?w1" by (rule submit_steps)
    then have s1: "steps ?W ?K batch_event w0 ?w1" by (rule steps_mono) auto
    have "steps (wav_path_of ` snd ` set (enumerate 0 ?ps))
         ((\<lambda>f. transcript_path_of cfg (wav_path_of f)) ` snd ` set (enumerate 0 ?ps))
         task_event ?w1 (snd (run_tasks cfg sv sched (enumerate 0 ?ps) (replicate (length ?ps) None) ?w1))"
      by (rule run_tasks_steps)
    then have s2: "steps ?W ?K batch_event ?w1
         (snd (run_tasks cfg sv sched (enumerate 0 ?ps) (replicate (length ?ps) None) ?w1))"
      by (rule steps_mono) (simp_all add: snd_enumerate task_event_batch)
    have "snd (run_batch cfg sv sched w)
        = snd (run_tasks cfg sv sched (enumerate 0 ?ps) (replicate (length ?ps) None) ?w1)"
      using l Inr n by (simp add: run_batch_def batch_paths_def Let_def split: prod.splits)
    then show ?thesis using steps_trans [OF steps_trans [OF s0 s1] s2] by simp
  qed
qed

lemma main_transcribe_fresh:
  assumes "\<not> path_exists (consolidated_transcript_file cfg) w"
    and "run_batch cfg sv sched w = (Inr futures, w2)"
    and "gather futures [] = Inr texts"
  shows "main_transcribe cfg sv sched w
       = (Inr (str_join ''\<newline>\<newline>'' texts),
          w2\<lparr>fs := AList.update (consolidated_transcript_file cfg)
                     (File (str_join ''\<newline>\<newline>'' texts)) (fs w2),
             trace := trace w2 @ [WriteFile (consolidated_transcript_file cfg)
                                    (str_join ''\<newline>\<newline>'' texts)]\<rparr>)"
proof -
  have "steps (wav_path_of ` set (batch_paths cfg w))
         ((\<lambda>f. transcript_path_of cfg (wav_path_of f)) ` set (batch_paths cfg w))
         batch_event w w2"
    using run_batch_steps [of cfg w sv sched] assms(2) by simp
  then have "isdir (consolidated_transcript_file cfg) w2 = isdir (consolidated_transcript_file cfg) w"
    by (simp add: steps_def)
  then have "\<not> isdir (consolidated_transcript_file cfg) w2"
    using assms(1) by (simp add: isdir_def path_exists_def)
  then show ?thesis using assms by (simp add: main_transcribe_def write_file_def Let_def)
qed

lemma gather_acc:
  "gather futures acc = (case gather futures [] of Inl e \<Rightarrow> Inl e | Inr ts \<Rightarrow> Inr (acc @ ts))"
proof (induction futures arbitrary: acc)
  case Nil
  show ?case by simp
next
  case (Cons f fs)
  show ?case
  proof (cases f)
    case None
    then show ?thesis by simp
  next
    case (Some r)
    show ?thesis
    proof (cases r)
      case (Inl e)
      with Some show ?thesis by simp
    next
      case (Inr t)
      have a: "gather fs (acc @ [t]) = (case gather fs [] of Inl e \<Rightarrow> Inl e | Inr ts \<Rightarrow> Inr (acc @ [t] @ ts))"
        using Cons.IH [of "acc @ [t]"] by (simp split: sum.splits)
      have b: "gather fs [t] = (case gather fs [] of Inl e \<Rightarrow> Inl e | Inr ts \<Rightarrow> Inr ([t] @ ts))"
        using Cons.IH [of "[t]"] by (simp split: sum.splits)
      show ?thesis using Some Inr a b Cons.IH [of acc]
        by (simp split: sum.splits)
    qed
  qed
qed

lemma gather_texts:
  "gather (map (\<lambda>t. Some (Inr t)) ts) [] = Inr (filter (\<lambda>t. t \<noteq> []) ts)"
proof (induction ts)
  case Nil
  show ?case by simp
next
  case (Cons t ts)
  show ?case using Cons.IH gather_acc [of "map (\<lambda>t. Some (Inr t)) ts" "[t]"]
    by (simp split: sum.splits)
qed

subsection \<open>The name of the converted file\<close>

lemma m4a_overlap:
  assumes "suffix ''.m4a'' (''.m4a'' @ rest)" "rest \<noteq> []"
  shows "suffix ''.m4a'' rest"
proof -
  consider r1 where "rest = [r1]" | r1 r2 where "rest = [r1, r2]"
    | r1 r2 r3 where "rest = [r1, r2, r3]"
    | r1 r2 r3 r4 more where "rest = r1 # r2 # r3 # r4 # more"
    using assms(2) by (metis list.exhaust)
  then show ?thesis
  proof cases
    case 1
    then show ?thesis using assms(1) by (simp add: suffix_Cons)
  next
    case 2
    then show ?thesis using assms(1) by (simp add: suffix_Cons)
  next
    case 3
    then show ?thesis using assms(1) by (simp add: suffix_Cons)
  next
    case 4
    then show ?thesis using assms(1) by (simp add: suffix_Cons)
  qed
qed

lemma wav_suffix:
  "suffix ''.m4a'' s \<Longrightarrow> suffix ''.wav'' (wav_path_of s)"
proof (induction s rule: measure_induct_rule [of length])
  case (less s)
  show ?case
  proof (cases s)
    case Nil
    then show ?thesis using less.prems by simp
  next
    case (Cons c cs)
    show ?thesis
    proof (cases "prefix ''.m4a'' s")
      case True
      then obtain rest where rest: "s = ''.m4a'' @ rest" by (auto simp: prefix_def)
      have d: "drop (length ''.m4a'') s = rest" using rest by simp
      have w: "wav_path_of s = ''.wav'' @ wav_path_of rest"
        using Cons True d by (simp add: wav_path_of_def)
      show ?thesis
      proof (cases "rest = []")
        case True
        then show ?thesis using w by (simp add: wav_path_of_def)
      next
        case False
        have "suffix ''.m4a'' rest" using m4a_overlap less.prems rest False by blast
        moreover have "length rest < length s" using rest by simp
        ultimately have "suffix ''.wav'' (wav_path_of rest)" using less.IH by blast
        then have "suffix ''.wav'' (''.wav'' @ wav_path_of rest)" by (rule suffix_appendI)
        then show ?thesis using w by simp
      qed
    next
      case False
      have w: "wav_path_of s = c # wav_path_of cs"
        using Cons False by (auto simp: wav_path_of_def)
      have "s \<noteq> ''.m4a''" using False by auto
      then have "suffix ''.m4a'' cs" using less.prems Cons by (auto simp: suffix_Cons)
      then have "suffix ''.wav'' (wav_path_of cs)" using less.IH Cons by simp
      then show ?thesis using w by (simp add: suffix_ConsI)
    qed
  qed
qed

lemma wav_not_m4a: "suffix ''.wav'' s \<Longrightarrow> \<not> suffix ''.m4a'' s"
  by (auto simp: suffix_def)


lemma txt_not_wav: "suffix ''.txt'' s \<Longrightarrow> \<not> suffix ''.wav'' s"
  by (auto simp: suffix_def)


lemma transcript_path_txt: "suffix ''.txt'' (transcript_path_of cfg q)"
  by (auto simp: transcript_path_of_def path_join_def suffix_def prefix_def)





lemma batch_futures:
  assumes "run_batch cfg sv sched w = (Inr futures, w2)"
  shows "length futures = length (batch_paths cfg w)
       \<and> (\<forall>i<length (batch_paths cfg w). \<exists>w0.
             futures ! i = Some (fst (process_file cfg sv (batch_paths cfg w ! i) w0)))"
proof -
  let ?ps = "batch_paths cfg w"
  obtain w1 where r: "run_tasks cfg sv sched (enumerate 0 ?ps) (replicate (length ?ps) None) w1
                        = (futures, w2)"
    using run_batch_Inr [OF assms] by blast
  have d: "distinct (map fst (enumerate 0 ?ps))" by simp
  have b: "\<forall>x\<in>set (enumerate 0 ?ps). fst x < length (replicate (length ?ps) (None :: (error + string) option))"
    by (auto simp: in_set_enumerate_eq)
  have f: "length futures = length ?ps
       \<and> (\<forall>x\<in>set (enumerate 0 ?ps). \<exists>w0.
             futures ! fst x = Some (fst (process_file cfg sv (snd x) w0)))"
    using run_tasks_futures [OF d b, of cfg sv sched w1] r by simp
  have "\<exists>w0. futures ! i = Some (fst (process_file cfg sv (?ps ! i) w0))" if "i < length ?ps" for i
  proof -
    have "(i, ?ps ! i) \<in> set (enumerate 0 ?ps)" using that by (simp add: in_set_enumerate_eq)
    then show ?thesis using f by fastforce
  qed
  then show ?thesis using f by blast
qed


subsection \<open>Clearing a directory\<close>

lemma path_join_name: "CHR ''/'' \<notin> set n \<Longrightarrow> path_join d n = dir_prefix d @ n"
  by (cases n) (auto simp: path_join_def dir_prefix_def)

lemma child_name_Some:
  "child_name d p = Some n \<longleftrightarrow> (p = dir_prefix d @ n \<and> n \<noteq> [] \<and> CHR ''/'' \<notin> set n)"
  by (auto simp: child_name_def Let_def prefix_def)

lemma child_name_join: "child_name d p = Some n \<Longrightarrow> path_join d n = p"
  by (simp add: child_name_Some path_join_name)

lemma set_entries:
  "set (entries d w) = {n. \<exists>p \<in> fst ` set (fs w). child_name d p = Some n}"
  by (force simp: entries_def List.map_filter_def image_iff)

lemma entries_paths:
  "path_join d ` set (entries d w) = {p \<in> fst ` set (fs w). child_name d p \<noteq> None}"
proof (intro set_eqI iffI)
  fix p assume "p \<in> path_join d ` set (entries d w)"
  then obtain n where n: "n \<in> set (entries d w)" "p = path_join d n" by blast
  then obtain p0 where p0: "p0 \<in> fst ` set (fs w)" "child_name d p0 = Some n"
    using set_entries by blast
  then have "p = p0" using n(2) child_name_join by simp
  then show "p \<in> {p \<in> fst ` set (fs w). child_name d p \<noteq> None}" using p0 by simp
next
  fix p assume "p \<in> {p \<in> fst ` set (fs w). child_name d p \<noteq> None}"
  then obtain n where n: "p \<in> fst ` set (fs w)" "child_name d p = Some n" by auto
  then have "n \<in> set (entries d w)" using set_entries by blast
  moreover have "path_join d n = p" using n(2) child_name_join by simp
  ultimately show "p \<in> path_join d ` set (entries d w)" by blast
qed

lemma isfile_key: "isfile p w \<Longrightarrow> p \<in> fst ` set (fs w)"
  using map_of_eq_None_iff [of "fs w" p] by (auto simp: isfile_def split: option.splits)

lemma entries_files:
  "{p \<in> path_join d ` set (entries d w). isfile p w} = {p. child_name d p \<noteq> None \<and> isfile p w}"
  using entries_paths [of d w] isfile_key by auto

lemma remove_isfile:
  "isfile p w \<Longrightarrow>
     remove p w = (Inr (), w\<lparr>fs := AList.delete p (fs w), trace := trace w @ [Remove p]\<rparr>)"
  by (auto simp: remove_def isfile_def split: option.splits node.splits)

lemma remove_files_result:
  "fst (remove_files d names w) = Inr ()
   \<and> (\<forall>p. map_of (fs (snd (remove_files d names w))) p
          = (if p \<in> path_join d ` set names \<and> isfile p w then None else map_of (fs w) p))
   \<and> (\<exists>rs. trace (snd (remove_files d names w)) = trace w @ map Remove rs
          \<and> set rs = {p \<in> path_join d ` set names. isfile p w})"
proof (induction names arbitrary: w)
  case Nil
  show ?case by simp
next
  case (Cons n names)
  let ?q = "path_join d n"
  show ?case
  proof (cases "isfile ?q w")
    case False
    have eq: "remove_files d (n # names) w = remove_files d names w" using False by simp
    have s: "{p \<in> path_join d ` set (n # names). isfile p w}
           = {p \<in> path_join d ` set names. isfile p w}"
      using False by auto
    have m: "(p \<in> path_join d ` set (n # names) \<and> isfile p w)
           = (p \<in> path_join d ` set names \<and> isfile p w)" for p
      using False by auto
    show ?thesis unfolding eq s m using Cons.IH [of w] .
  next
    case True
    let ?w1 = "w\<lparr>fs := AList.delete ?q (fs w), trace := trace w @ [Remove ?q]\<rparr>"
    have eq: "remove_files d (n # names) w = remove_files d names ?w1"
      using True remove_isfile [OF True] by (simp add: Let_def)
    have f1: "isfile p ?w1 = (p \<noteq> ?q \<and> isfile p w)" for p
      by (simp add: isfile_def delete_conv')
    have m1: "map_of (fs ?w1) p = (if p = ?q then None else map_of (fs w) p)" for p
      by (simp add: delete_conv')
    obtain rs where ih:
      "fst (remove_files d names ?w1) = Inr ()"
      "\<forall>p. map_of (fs (snd (remove_files d names ?w1))) p
          = (if p \<in> path_join d ` set names \<and> isfile p ?w1 then None else map_of (fs ?w1) p)"
      "trace (snd (remove_files d names ?w1)) = trace ?w1 @ map Remove rs"
      "set rs = {p \<in> path_join d ` set names. isfile p ?w1}"
      using Cons.IH [of ?w1] by blast
    have a: "\<forall>p. map_of (fs (snd (remove_files d names ?w1))) p
          = (if p \<in> path_join d ` set (n # names) \<and> isfile p w then None else map_of (fs w) p)"
      using ih(2) f1 m1 True by auto
    have b: "trace (snd (remove_files d names ?w1)) = trace w @ map Remove (?q # rs)"
      using ih(3) by simp
    have c: "set (?q # rs) = {p \<in> path_join d ` set (n # names). isfile p w}"
      using ih(4) f1 True by auto
    show ?thesis unfolding eq using ih(1) a b c by blast
  qed
qed

lemma clear_directory_result:
  assumes "clear_directory d w = (Inr u, w')"
  shows "isdir d w
       \<and> (\<forall>p. map_of (fs w') p
              = (if child_name d p \<noteq> None \<and> isfile p w then None else map_of (fs w) p))
       \<and> (\<exists>rs. trace w' = trace w @ ListDir d # map Remove rs
              \<and> set rs = {p. child_name d p \<noteq> None \<and> isfile p w})"
proof -
  obtain r w0 where l: "listdir d w = (r, w0)" by (cases "listdir d w")
  show ?thesis
  proof (cases r)
    case (Inl e)
    then show ?thesis using assms l by (simp add: clear_directory_def)
  next
    case (Inr names)
    have n: "names = entries d w" "w0 = log_event (ListDir d) w"
      using listdir_Inr l Inr by blast+
    have dir: "isdir d w" using l Inr
      by (auto simp: listdir_def isdir_def split: option.splits node.splits)
    have w': "w' = snd (remove_files d names w0)"
      using assms l Inr by (simp add: clear_directory_def)
    have f0: "isfile p w0 = isfile p w" "map_of (fs w0) p = map_of (fs w) p" for p
      using n(2) by (simp_all add: isfile_def log_event_def)
    have e0: "entries d w0 = entries d w" using n(2) by (simp add: entries_def log_event_def)
    obtain rs where rr:
      "\<forall>p. map_of (fs w') p
          = (if p \<in> path_join d ` set names \<and> isfile p w0 then None else map_of (fs w0) p)"
      "trace w' = trace w0 @ map Remove rs"
      "set rs = {p \<in> path_join d ` set names. isfile p w0}"
      using remove_files_result [of d names w0] w' by blast
    have s: "{p \<in> path_join d ` set names. isfile p w0} = {p. child_name d p \<noteq> None \<and> isfile p w}"
      using entries_files [of d w] n(1) f0(1) by simp
    have a: "\<forall>p. map_of (fs w') p
              = (if child_name d p \<noteq> None \<and> isfile p w then None else map_of (fs w) p)"
    proof
      fix p
      have "(p \<in> path_join d ` set names \<and> isfile p w0) = (child_name d p \<noteq> None \<and> isfile p w)"
        using s by blast
      then show "map_of (fs w') p
              = (if child_name d p \<noteq> None \<and> isfile p w then None else map_of (fs w) p)"
        using rr(1) f0(2) by simp
    qed
    have b: "trace w' = trace w @ ListDir d # map Remove rs"
      using rr(2) n(2) by (simp add: log_event_def)
    show ?thesis using dir a b rr(3) s by auto
  qed
qed

lemma clear_directory_Inl: "clear_directory d w = (Inl e, w') \<Longrightarrow> w' = w"
proof -
  assume a: "clear_directory d w = (Inl e, w')"
  obtain r w0 where l: "listdir d w = (r, w0)" by (cases "listdir d w")
  show ?thesis
  proof (cases r)
    case (Inl e0)
    then show ?thesis using a l listdir_Inl by (auto simp: clear_directory_def)
  next
    case (Inr names)
    then show ?thesis using a l remove_files_result [of d names w0]
      by (simp add: clear_directory_def)
  qed
qed

subsection \<open>The finaliser\<close>

lemma move_result:
  assumes "move src dst w = (Inr real_dst, w')"
  shows "\<exists>c. map_of (fs w) src = Some (File c)
       \<and> real_dst = (if isdir dst w then path_join dst (basename src) else dst)
       \<and> map_of (fs w') = ((map_of (fs w))(src := None))(real_dst \<mapsto> File c)
       \<and> map_of (fs w) real_dst \<noteq> Some Dir
       \<and> trace w' = trace w @ [Move src real_dst]"
  using assms
  by (auto simp: move_def Let_def update_conv' delete_conv' isdir_def path_exists_def
      split: if_splits option.splits node.splits)

lemma write_file_result:
  assumes "write_file p c w = (Inr u, w')"
  shows "map_of (fs w) p \<noteq> Some Dir \<and> map_of (fs w') = (map_of (fs w))(p \<mapsto> File c)
       \<and> trace w' = trace w @ [WriteFile p c]"
  using assms by (auto simp: write_file_def isdir_def update_conv' split: if_splits)

lemma main_finalize_success:
  assumes "main_finalize cfg sv c w = (Inr u, w')"
  shows "\<exists>content c0 dst w2 w3.
           completion sv (prompt_of c) = Some content
         \<and> map_of (fs w) (summary_action_file cfg) \<noteq> Some Dir
         \<and> ((map_of (fs w))(summary_action_file cfg \<mapsto> File (strip content)))
              (consolidated_transcript_file cfg) = Some (File c0)
         \<and> dst = (if isdir (transcript_file cfg) w
                  then path_join (transcript_file cfg) (basename (consolidated_transcript_file cfg))
                  else transcript_file cfg)
         \<and> ((map_of (fs w))(summary_action_file cfg \<mapsto> File (strip content))) dst \<noteq> Some Dir
         \<and> map_of (fs w2)
             = (((map_of (fs w))(summary_action_file cfg \<mapsto> File (strip content)))
                  (consolidated_transcript_file cfg := None))(dst \<mapsto> File c0)
         \<and> trace w2 = trace w @ [Summarize c,
                                  WriteFile (summary_action_file cfg) (strip content),
                                  Move (consolidated_transcript_file cfg) dst]
         \<and> clear_directory (incoming_bucket cfg) w2 = (Inr (), w3)
         \<and> clear_directory (intermediate_transcripts cfg) w3 = (Inr u, w')"
proof -
  obtain r0 w0 where g: "generate_summary_and_action sv c w = (r0, w0)"
    by (cases "generate_summary_and_action sv c w")
  obtain s where r0: "r0 = Inr s" using assms g by (cases r0) (auto simp: main_finalize_def)
  obtain content where co: "completion sv (prompt_of c) = Some content" "s = strip content"
      "w0 = log_event (Summarize c) w"
    using g r0 by (auto simp: generate_summary_and_action_def Let_def split: option.splits)
  obtain r1 w1 where wr: "write_file (summary_action_file cfg) s w0 = (r1, w1)"
    by (cases "write_file (summary_action_file cfg) s w0")
  have r1: "r1 = Inr ()" using assms g r0 wr by (cases r1) (auto simp: main_finalize_def)
  have w1: "map_of (fs w0) (summary_action_file cfg) \<noteq> Some Dir"
      "map_of (fs w1) = (map_of (fs w0))(summary_action_file cfg \<mapsto> File s)"
      "trace w1 = trace w0 @ [WriteFile (summary_action_file cfg) s]"
    using write_file_result wr r1 by blast+
  obtain r2 w2 where mv: "move (consolidated_transcript_file cfg) (transcript_file cfg) w1 = (r2, w2)"
    by (cases "move (consolidated_transcript_file cfg) (transcript_file cfg) w1")
  obtain dst where r2: "r2 = Inr dst"
    using assms g r0 wr r1 mv by (cases r2) (auto simp: main_finalize_def)
  obtain c0 where m: "map_of (fs w1) (consolidated_transcript_file cfg) = Some (File c0)"
      "dst = (if isdir (transcript_file cfg) w1
              then path_join (transcript_file cfg) (basename (consolidated_transcript_file cfg))
              else transcript_file cfg)"
      "map_of (fs w2) = ((map_of (fs w1))(consolidated_transcript_file cfg := None))(dst \<mapsto> File c0)"
      "map_of (fs w1) dst \<noteq> Some Dir"
      "trace w2 = trace w1 @ [Move (consolidated_transcript_file cfg) dst]"
    using move_result [of "consolidated_transcript_file cfg" "transcript_file cfg" w1 dst w2] mv r2
    by blast
  have d1: "isdir (transcript_file cfg) w1 = isdir (transcript_file cfg) w"
    using w1(1,2) co(3) by (auto simp: isdir_def log_event_def)
  obtain r3 w3 where c1: "clear_directory (incoming_bucket cfg) w2 = (r3, w3)"
    by (cases "clear_directory (incoming_bucket cfg) w2")
  have r3: "r3 = Inr ()"
    using assms g r0 wr r1 mv r2 c1 by (cases r3) (auto simp: main_finalize_def)
  have c2: "clear_directory (intermediate_transcripts cfg) w3 = (Inr u, w')"
    using assms g r0 wr r1 mv r2 c1 r3 by (simp add: main_finalize_def)
  have f0: "map_of (fs w0) = map_of (fs w)" "trace w0 = trace w @ [Summarize c]"
    using co(3) by (simp_all add: log_event_def)
  show ?thesis
    using co(1,2) w1 m d1 c1 r3 c2 f0 by auto
qed

subsection \<open>Where the paths of a run lie\<close>




lemma child_of_join:
  "n \<noteq> [] \<Longrightarrow> CHR ''/'' \<notin> set n \<Longrightarrow> child_name d (path_join d n) = Some n"
  by (simp add: child_name_Some path_join_name)

lemma slash_basename: "CHR ''/'' \<notin> set (basename p)"
  using set_takeWhileD [of "CHR ''/''" "\<lambda>c. c \<noteq> CHR ''/''" "rev p"] by (auto simp: basename_def)

lemma consolidated_child:
  "child_name (intermediate_transcripts cfg) (consolidated_transcript_file cfg)
     = Some ''total_transcript.md''"
  unfolding consolidated_transcript_file_def by (rule child_of_join) simp_all

lemma transcript_path_child:
  "child_name (intermediate_transcripts cfg) (transcript_path_of cfg q)
     = Some (basename q @ ''.txt'')"
  unfolding transcript_path_of_def by (rule child_of_join) (simp_all add: slash_basename)




lemma path_join_suffix: "suffix x n \<Longrightarrow> suffix x (path_join d n)"
  by (auto simp: path_join_def suffix_def)

lemma batch_paths_m4a: "f \<in> set (batch_paths cfg w) \<Longrightarrow> suffix ''.m4a'' f"
  by (auto simp: batch_paths_def eligible_paths_def path_join_suffix)

lemma consolidated_md: "suffix ''.md'' (consolidated_transcript_file cfg)"
  unfolding consolidated_transcript_file_def by (rule path_join_suffix) (simp add: suffix_def)

lemma md_not_wav: "suffix ''.md'' s \<Longrightarrow> \<not> suffix ''.wav'' s"
  by (auto simp: suffix_def)

lemma md_not_txt: "suffix ''.md'' s \<Longrightarrow> \<not> suffix ''.txt'' s"
  by (auto simp: suffix_def)

lemma batch_wavs: "p \<in> wav_path_of ` set (batch_paths cfg w) \<Longrightarrow> suffix ''.wav'' p"
  using batch_paths_m4a wav_suffix by blast

lemma batch_keys:
  "p \<in> (\<lambda>f. transcript_path_of cfg (wav_path_of f)) ` set (batch_paths cfg w) \<Longrightarrow> suffix ''.txt'' p"
  using transcript_path_txt by blast

lemma main_transcribe_steps:
  "steps (wav_path_of ` set (batch_paths cfg w))
         (insert (consolidated_transcript_file cfg)
            ((\<lambda>f. transcript_path_of cfg (wav_path_of f)) ` set (batch_paths cfg w)))
         batch_event w (snd (main_transcribe cfg sv sched w))"
proof (cases "path_exists (consolidated_transcript_file cfg) w")
  case True
  then show ?thesis by (simp add: main_transcribe_def steps_refl)
next
  case False
  let ?W = "wav_path_of ` set (batch_paths cfg w)"
  let ?K = "(\<lambda>f. transcript_path_of cfg (wav_path_of f)) ` set (batch_paths cfg w)"
  let ?c = "consolidated_transcript_file cfg"
  obtain r w2 where b: "run_batch cfg sv sched w = (r, w2)" by (cases "run_batch cfg sv sched w")
  have s2: "steps ?W ?K batch_event w w2" using run_batch_steps [of cfg w sv sched] b by simp
  then have s2': "steps ?W (insert ?c ?K) batch_event w w2" by (rule steps_mono) auto
  have "?c \<notin> ?W \<union> ?K"
    using consolidated_md [of cfg] md_not_wav md_not_txt batch_wavs batch_keys by blast
  then have "map_of (fs w2) ?c = map_of (fs w) ?c" using s2 by (simp add: steps_def)
  then have ne: "\<not> path_exists ?c w2" using False by (simp add: path_exists_def)
  show ?thesis
  proof (cases r)
    case (Inl e)
    then show ?thesis using False b s2' by (simp add: main_transcribe_def)
  next
    case (Inr futures)
    show ?thesis
    proof (cases "gather futures []")
      case (Inl e)
      then show ?thesis using False b Inr s2' by (simp add: main_transcribe_def)
    next
      case (Inr texts)
      let ?t = "str_join ''\<newline>\<newline>'' texts"
      have "steps {} {?c} batch_event w2 (snd (write_file ?c ?t w2))"
        using write_new_file_steps [of batch_event ?c ?t w2] ne by simp
      then have "steps ?W (insert ?c ?K) batch_event w2 (snd (write_file ?c ?t w2))"
        by (rule steps_mono) auto
      then have "steps ?W (insert ?c ?K) batch_event w (snd (write_file ?c ?t w2))"
        using s2' steps_trans by blast
      then show ?thesis using False b \<open>r = Inr futures\<close> Inr
        by (auto simp: main_transcribe_def Let_def split: prod.splits sum.splits)
    qed
  qed
qed


lemma isfile_iff: "isfile p w = (\<exists>c. map_of (fs w) p = Some (File c))"
  by (auto simp: isfile_def split: option.splits node.splits)

lemma main_success:
  assumes "main cfg sv sched w = (Inr u, w')"
  shows "\<exists>c w1. main_transcribe cfg sv sched w = (Inr c, w1)
              \<and> main_finalize cfg sv c w1 = (Inr u, w')"
proof -
  obtain r w1 where m: "main_transcribe cfg sv sched w = (r, w1)"
    by (cases "main_transcribe cfg sv sched w")
  show ?thesis using assms m by (cases r) (auto simp: main_def)
qed

subsection \<open>What clearing leaves alone\<close>

lemma nested_not_child: "child_name d (dir_prefix d @ sub @ ''/'' @ rest) = None"
  by (simp add: child_name_def Let_def)

lemma clear_directory_changes:
  assumes "clear_directory d w = (r, w')" "map_of (fs w') p \<noteq> map_of (fs w) p"
  shows "child_name d p \<noteq> None \<and> isfile p w \<and> map_of (fs w') p = None"
proof (cases r)
  case (Inl e)
  then show ?thesis using assms clear_directory_Inl by blast
next
  case (Inr u)
  have "\<forall>p. map_of (fs w') p
              = (if child_name d p \<noteq> None \<and> isfile p w then None else map_of (fs w) p)"
    using clear_directory_result [of d w u w'] assms(1) Inr by blast
  then show ?thesis using assms(2) by metis
qed

lemma main_finalize_frame:
  assumes "main_finalize cfg sv c w = (Inr u, w')"
  shows "(\<forall>p. isdir p w' = isdir p w)
       \<and> (\<forall>p. child_name (incoming_bucket cfg) p = None
             \<longrightarrow> child_name (intermediate_transcripts cfg) p = None
             \<longrightarrow> p \<noteq> summary_action_file cfg \<longrightarrow> p \<noteq> transcript_file cfg
             \<longrightarrow> p \<noteq> path_join (transcript_file cfg) (basename (consolidated_transcript_file cfg))
             \<longrightarrow> map_of (fs w') p = map_of (fs w) p)"
proof -
  let ?S = "summary_action_file cfg" and ?T = "transcript_file cfg"
  let ?C = "consolidated_transcript_file cfg"
  let ?B = "incoming_bucket cfg" and ?I = "intermediate_transcripts cfg"
  obtain content c0 dst w2 w3 where
      sd: "map_of (fs w) ?S \<noteq> Some Dir"
      and c0: "((map_of (fs w))(?S \<mapsto> File (strip content))) ?C = Some (File c0)"
      and dst: "dst = (if isdir ?T w then path_join ?T (basename ?C) else ?T)"
      and dd: "((map_of (fs w))(?S \<mapsto> File (strip content))) dst \<noteq> Some Dir"
      and m2: "map_of (fs w2)
                 = (((map_of (fs w))(?S \<mapsto> File (strip content)))(?C := None))(dst \<mapsto> File c0)"
      and cl1: "clear_directory ?B w2 = (Inr (), w3)"
      and cl2: "clear_directory ?I w3 = (Inr u, w')"
    using main_finalize_success [OF assms] by blast
  have m3: "\<forall>p. map_of (fs w3) p
             = (if child_name ?B p \<noteq> None \<and> isfile p w2 then None else map_of (fs w2) p)"
    using clear_directory_result [OF cl1] by blast
  have m4: "\<forall>p. map_of (fs w') p
             = (if child_name ?I p \<noteq> None \<and> isfile p w3 then None else map_of (fs w3) p)"
    using clear_directory_result [OF cl2] by blast
  have d2: "isdir p w2 = isdir p w" for p
    using m2 sd c0 dd by (auto simp: isdir_def split: if_splits)
  have d3: "isdir p w3 = isdir p w2" for p
    using m3 by (auto simp: isdir_def isfile_iff)
  have d4: "isdir p w' = isdir p w3" for p
    using m4 by (auto simp: isdir_def isfile_iff)
  have a: "\<forall>p. isdir p w' = isdir p w" using d2 d3 d4 by simp
  have cC: "child_name ?I ?C \<noteq> None" using consolidated_child [of cfg] by simp
  have b: "\<forall>p. child_name ?B p = None \<longrightarrow> child_name ?I p = None
             \<longrightarrow> p \<noteq> ?S \<longrightarrow> p \<noteq> ?T \<longrightarrow> p \<noteq> path_join ?T (basename ?C)
             \<longrightarrow> map_of (fs w') p = map_of (fs w) p"
  proof (intro allI impI)
    fix p
    assume h: "child_name ?B p = None" "child_name ?I p = None" "p \<noteq> ?S" "p \<noteq> ?T"
      "p \<noteq> path_join ?T (basename ?C)"
    have "p \<noteq> dst" using dst h(4,5) by auto
    moreover have "p \<noteq> ?C" using cC h(2) by auto
    ultimately have "map_of (fs w2) p = map_of (fs w) p" using m2 h(3) by simp
    then show "map_of (fs w') p = map_of (fs w) p" using m3 m4 h(1,2) by simp
  qed
  show ?thesis using a b by blast
qed

subsection \<open>A failing task\<close>

lemma gather_fails:
  "Some (Inl x) \<in> set futures \<Longrightarrow> \<exists>e. gather futures acc = Inl e"
proof (induction futures arbitrary: acc)
  case Nil
  then show ?case by simp
next
  case (Cons f fs)
  show ?case
  proof (cases f)
    case None
    then show ?thesis by simp
  next
    case (Some r)
    show ?thesis
    proof (cases r)
      case (Inl e)
      then show ?thesis using Some by simp
    next
      case (Inr t)
      then have "Some (Inl x) \<in> set fs" using Cons.prems Some by auto
      then show ?thesis using Cons.IH Some Inr by simp
    qed
  qed
qed

lemma transcribe_entry:
  assumes "transcribe_audio cfg sv q w = (Inr t, w')"
  shows "map_of (fs w') (transcript_path_of cfg q) = Some (File t)"
  using assms
  by (auto simp: transcribe_audio_def Let_def path_exists_def read_file_def write_file_def
        update_conv' log_event_def
      split: if_splits option.splits node.splits sum.splits prod.splits)

lemma process_file_entry:
  assumes "suffix ''.m4a'' f" "process_file cfg sv f w = (Inr t, w')"
  shows "map_of (fs w') (transcript_path_of cfg f) = Some (File t)
       \<or> map_of (fs w') (transcript_path_of cfg (wav_path_of f)) = Some (File t)"
proof (cases "path_exists (transcript_path_of cfg f) w")
  case True
  then show ?thesis using assms(2)
    by (auto simp: process_file_def read_file_def Let_def split: option.splits node.splits)
next
  case False
  obtain r1 w1 where c: "convert_m4a_to_wav sv f w = (r1, w1)"
    by (cases "convert_m4a_to_wav sv f w")
  obtain q where r1: "r1 = Inr q"
    using assms(2) False c by (cases r1) (auto simp: process_file_def)
  have q: "q = wav_path_of f" using c r1 convert_result by simp
  obtain r2 w2 where tr: "transcribe_audio cfg sv q w1 = (r2, w2)"
    by (cases "transcribe_audio cfg sv q w1")
  obtain t2 where r2: "r2 = Inr t2"
    using assms(2) False c r1 tr by (cases r2) (auto simp: process_file_def)
  obtain r3 w3 where rm: "remove q w2 = (r3, w3)" by (cases "remove q w2")
  have r3: "r3 = Inr ()" "t2 = t" "w3 = w'"
    using assms(2) False c r1 tr r2 rm by (cases r3; auto simp: process_file_def)+
  have e2: "map_of (fs w2) (transcript_path_of cfg q) = Some (File t)"
    using transcribe_entry tr r2 r3(2) by blast
  have ne: "transcript_path_of cfg q \<noteq> q"
    using q wav_suffix [OF assms(1)] transcript_path_txt [of cfg q] txt_not_wav by metis
  have "steps {q} {} task_event w2 w3" using remove_steps [of task_event q w2] rm by simp
  then have "map_of (fs w3) (transcript_path_of cfg q) = Some (File t)"
    using e2 ne by (simp add: steps_def)
  then show ?thesis using q r3(3) by simp
qed

lemma run_tasks_entries:
  assumes "distinct (map fst pending)" "\<forall>x\<in>set pending. fst x < length futures"
    and "\<forall>x\<in>set pending. suffix ''.m4a'' (snd x)"
  shows "\<forall>x\<in>set pending. \<forall>t.
           fst (run_tasks cfg sv sched pending futures w) ! fst x = Some (Inr t) \<longrightarrow>
             map_of (fs (snd (run_tasks cfg sv sched pending futures w)))
               (transcript_path_of cfg (snd x)) = Some (File t)
           \<or> map_of (fs (snd (run_tasks cfg sv sched pending futures w)))
               (transcript_path_of cfg (wav_path_of (snd x))) = Some (File t)"
  using assms
proof (induction cfg sv sched pending futures w rule: run_tasks.induct)
  case (1 cfg sv sched futures w)
  show ?case by simp
next
  case (2 cfg sv sched t ts futures w)
  let ?k = "pick sched (length (t # ts))"
  let ?e = "(t # ts) ! ?k"
  let ?rest = "without ?k (t # ts)"
  have k: "?k < length (t # ts)" using pick_less [of "length (t # ts)" sched] by simp
  have mem: "set (t # ts) = insert ?e (set ?rest)" using set_without [OF k] .
  have e_in: "?e \<in> set (t # ts)" and sub: "set ?rest \<subseteq> set (t # ts)" using mem by blast+
  have d: "distinct (map fst ?rest)" "fst ?e \<notin> fst ` set ?rest"
    using distinct_without [OF k "2.prems"(1)] by simp_all
  obtain r w1 where p: "process_file cfg sv (snd ?e) w = (r, w1)"
    by (cases "process_file cfg sv (snd ?e) w")
  let ?f1 = "futures[fst ?e := Some r]"
  let ?run = "run_tasks cfg sv (tl sched) ?rest ?f1 w1"
  have e_lt: "fst ?e < length futures" using "2.prems"(2) e_in by blast
  have "\<forall>x\<in>set ?rest. fst x < length futures" using "2.prems"(2) sub by blast
  then have b: "\<forall>x\<in>set ?rest. fst x < length ?f1" by simp
  have m4a: "\<forall>x\<in>set ?rest. suffix ''.m4a'' (snd x)" using "2.prems"(3) sub by blast
  have e_m4a: "suffix ''.m4a'' (snd ?e)" using "2.prems"(3) e_in by blast
  have ih: "\<forall>x\<in>set ?rest. \<forall>t.
           fst ?run ! fst x = Some (Inr t) \<longrightarrow>
             map_of (fs (snd ?run)) (transcript_path_of cfg (snd x)) = Some (File t)
           \<or> map_of (fs (snd ?run)) (transcript_path_of cfg (wav_path_of (snd x))) = Some (File t)"
    using "2.IH" [OF refl p [symmetric] d(1) b m4a] .
  have eq: "run_tasks cfg sv sched (t # ts) futures w = ?run"
    using p by (simp add: Let_def)
  have slot: "fst ?run ! fst ?e = Some r"
    using run_tasks_futures [OF d(1) b, of cfg sv "tl sched" w1] d(2) e_lt by simp
  have st: "steps (wav_path_of ` snd ` set ?rest)
              ((\<lambda>f. transcript_path_of cfg (wav_path_of f)) ` snd ` set ?rest)
              task_event w1 (snd ?run)"
    by (rule run_tasks_steps)
  have keep: "map_of (fs (snd ?run)) y = Some n"
    if "suffix ''.txt'' y" "map_of (fs w1) y = Some n" for y n
  proof -
    have "y \<notin> wav_path_of ` snd ` set ?rest"
      using that(1) m4a wav_suffix txt_not_wav by blast
    then show ?thesis using st that(2) by (simp add: steps_def)
  qed
  have here: "\<forall>tx. fst ?run ! fst ?e = Some (Inr tx) \<longrightarrow>
             map_of (fs (snd ?run)) (transcript_path_of cfg (snd ?e)) = Some (File tx)
           \<or> map_of (fs (snd ?run)) (transcript_path_of cfg (wav_path_of (snd ?e))) = Some (File tx)"
  proof (intro allI impI)
    fix tx assume "fst ?run ! fst ?e = Some (Inr tx)"
    then have "r = Inr tx" using slot by simp
    then have "map_of (fs w1) (transcript_path_of cfg (snd ?e)) = Some (File tx)
       \<or> map_of (fs w1) (transcript_path_of cfg (wav_path_of (snd ?e))) = Some (File tx)"
      using process_file_entry [OF e_m4a] p by simp
    then show "map_of (fs (snd ?run)) (transcript_path_of cfg (snd ?e)) = Some (File tx)
           \<or> map_of (fs (snd ?run)) (transcript_path_of cfg (wav_path_of (snd ?e))) = Some (File tx)"
      using keep transcript_path_txt by blast
  qed
  show ?case unfolding eq using ih here mem by (metis insertE)
qed

lemma batch_entries:
  assumes "run_batch cfg sv sched w = (Inr futures, w2)"
  shows "\<forall>i<length (batch_paths cfg w). \<forall>t. futures ! i = Some (Inr t) \<longrightarrow>
           map_of (fs w2) (transcript_path_of cfg (batch_paths cfg w ! i)) = Some (File t)
         \<or> map_of (fs w2) (transcript_path_of cfg (wav_path_of (batch_paths cfg w ! i)))
             = Some (File t)"
proof -
  let ?ps = "batch_paths cfg w"
  obtain w1 where r: "run_tasks cfg sv sched (enumerate 0 ?ps) (replicate (length ?ps) None) w1
                        = (futures, w2)"
    using run_batch_Inr [OF assms] by blast
  have d: "distinct (map fst (enumerate 0 ?ps))" by simp
  have b: "\<forall>x\<in>set (enumerate 0 ?ps). fst x < length (replicate (length ?ps) (None :: (error + string) option))"
    by (auto simp: in_set_enumerate_eq)
  have m: "\<forall>x\<in>set (enumerate 0 ?ps). suffix ''.m4a'' (snd x)"
    using batch_paths_m4a [of _ cfg w] by (auto simp: in_set_enumerate_eq)
  have f: "\<forall>x\<in>set (enumerate 0 ?ps). \<forall>t. futures ! fst x = Some (Inr t) \<longrightarrow>
             map_of (fs w2) (transcript_path_of cfg (snd x)) = Some (File t)
           \<or> map_of (fs w2) (transcript_path_of cfg (wav_path_of (snd x))) = Some (File t)"
    using run_tasks_entries [OF d b m, of cfg sv sched w1] r by simp
  show ?thesis
  proof (intro allI impI)
    fix i t assume i: "i < length ?ps" and s: "futures ! i = Some (Inr t)"
    have "(i, ?ps ! i) \<in> set (enumerate 0 ?ps)" using i by (simp add: in_set_enumerate_eq)
    then show "map_of (fs w2) (transcript_path_of cfg (?ps ! i)) = Some (File t)
         \<or> map_of (fs w2) (transcript_path_of cfg (wav_path_of (?ps ! i))) = Some (File t)"
      using f s by fastforce
  qed
qed

lemma summary_md: "suffix ''.md'' (summary_action_file cfg)"
  unfolding summary_action_file_def by (rule path_join_suffix) (simp add: suffix_def)

lemma m4a_not_wav_path:
  assumes "suffix ''.m4a'' p"
  shows "p \<notin> wav_path_of ` set (batch_paths cfg w)"
  using assms batch_wavs wav_not_m4a by blast

subsection \<open>Running again\<close>






subsection \<open>Keys and directories of the converted file\<close>

lemma batch_no_pending:
  assumes "run_batch cfg sv sched w = (Inr futures, w2)"
  shows "None \<notin> set futures"
proof
  assume "None \<in> set futures"
  then obtain i where i: "i < length futures" "futures ! i = None"
    by (metis in_set_conv_nth)
  then show False using batch_futures [OF assms] by auto
qed

lemma basename_suffix:
  assumes "suffix x p" "CHR ''/'' \<notin> set x"
  shows "suffix x (basename p)"
proof -
  obtain u where p: "p = u @ x" using assms(1) by (auto simp: suffix_def)
  have "takeWhile (\<lambda>c. c \<noteq> CHR ''/'') (rev x @ rev u)
          = rev x @ takeWhile (\<lambda>c. c \<noteq> CHR ''/'') (rev u)"
    by (rule takeWhile_append2) (use assms(2) in auto)
  then have "basename p = rev (takeWhile (\<lambda>c. c \<noteq> CHR ''/'') (rev u)) @ x"
    using p by (simp add: basename_def)
  then show ?thesis by (simp add: suffix_def)
qed

lemma transcript_paths_differ:
  assumes "suffix ''.m4a'' f"
  shows "transcript_path_of cfg (wav_path_of f) \<noteq> transcript_path_of cfg f"
proof
  assume eq: "transcript_path_of cfg (wav_path_of f) = transcript_path_of cfg f"
  have "child_name (intermediate_transcripts cfg) (transcript_path_of cfg (wav_path_of f))
          = Some (basename (wav_path_of f) @ ''.txt'')"
       "child_name (intermediate_transcripts cfg) (transcript_path_of cfg f)
          = Some (basename f @ ''.txt'')"
    using transcript_path_child by blast+
  then have b: "basename (wav_path_of f) = basename f" using eq by simp
  have "suffix ''.wav'' (basename (wav_path_of f))"
    using basename_suffix [OF wav_suffix [OF assms]] by simp
  moreover have "suffix ''.m4a'' (basename f)" using basename_suffix [OF assms] by simp
  ultimately show False using b wav_not_m4a by metis
qed

lemma entry_under_converted_name:
  assumes "suffix ''.m4a'' f"
    and "\<not> path_exists (transcript_path_of cfg f) w"
    and "process_file cfg sv f w = (Inr t, w')"
  shows "map_of (fs w') (transcript_path_of cfg f) = None
       \<and> map_of (fs w') (transcript_path_of cfg (wav_path_of f)) = Some (File t)
       \<and> transcript_path_of cfg (wav_path_of f) \<noteq> transcript_path_of cfg f"
proof -
  have d: "transcript_path_of cfg (wav_path_of f) \<noteq> transcript_path_of cfg f"
    using transcript_paths_differ [OF assms(1)] .
  have "transcript_path_of cfg f \<noteq> wav_path_of f"
    using wav_suffix [OF assms(1)] transcript_path_txt [of cfg f] txt_not_wav by metis
  then have "map_of (fs w') (transcript_path_of cfg f) = map_of (fs w) (transcript_path_of cfg f)"
    using process_file_steps [of f cfg w sv] assms(3) d by (simp add: steps_def)
  then have a: "map_of (fs w') (transcript_path_of cfg f) = None"
    using assms(2) by (simp add: path_exists_def)
  then have "map_of (fs w') (transcript_path_of cfg (wav_path_of f)) = Some (File t)"
    using process_file_entry [OF assms(1,3)] by simp
  then show ?thesis using a d by simp
qed




section \<open>The properties of the specification\<close>

subsection \<open>The key of a transcript entry\<close>

text \<open>
  C1. Processing \<^verbatim>\<open>a.m4a\<close> without a cache entry stores its text under
  \<^verbatim>\<open>a.wav.txt\<close>, the name of the converted file, and nothing under \<^verbatim>\<open>a.m4a.txt\<close>,
  the key \<^verbatim>\<open>process_file\<close> looks up for that file: run again, the pipeline misses its
  own entry and converts the file a second time.
\<close>

theorem C1_entry_not_under_source_name:
  "fst (process_file example_config example_services ''./incoming_audio/a.m4a'' example_world)
     = Inr ''text of wav:A''
   \<and> transcript_path_of example_config ''./incoming_audio/a.m4a''
     = ''./intermediate_transcripts/a.m4a.txt''
   \<and> map_of (fs (snd (process_file example_config example_services ''./incoming_audio/a.m4a''
                         example_world))) ''./intermediate_transcripts/a.m4a.txt''
     = None
   \<and> map_of (fs (snd (process_file example_config example_services ''./incoming_audio/a.m4a''
                         example_world))) ''./intermediate_transcripts/a.wav.txt''
     = Some (File ''text of wav:A'')
   \<and> trace (snd (process_file example_config example_services ''./incoming_audio/a.m4a''
              (snd (process_file example_config example_services ''./incoming_audio/a.m4a''
                      example_world))))
     = [Convert ''./incoming_audio/a.m4a'',
        WriteFile ''./incoming_audio/a.wav'' ''wav:A'',
        Transcribe ''./incoming_audio/a.wav'',
        WriteFile ''./intermediate_transcripts/a.wav.txt'' ''text of wav:A'',
        Remove ''./incoming_audio/a.wav'',
        Convert ''./incoming_audio/a.m4a'',
        WriteFile ''./incoming_audio/a.wav'' ''wav:A'',
        Remove ''./incoming_audio/a.wav'']"
  by code_simp

subsection \<open>Cache hit in the file pipeline\<close>



subsection \<open>Running again\<close>



subsection \<open>Resuming from the consolidated transcript\<close>



subsection \<open>Order of the consolidated transcript\<close>




subsection \<open>A failing transcription\<close>

text \<open>
  C6, as stated, fails for a file of the input directory that bears the \<^verbatim>\<open>.wav\<close> name
  of a note: the first task overwrites and deletes \<^verbatim>\<open>a.wav\<close>, the second task's
  transcription fails, and the run ends with \<^verbatim>\<open>a.wav\<close> gone.
\<close>

theorem C6_counterexample:
  "fst (main example_config flaky_services [] notes_world)
     = Inl (TranscriptionError ''./incoming_audio/c.wav'')
   \<and> child_name (incoming_bucket example_config) ''./incoming_audio/a.wav'' = Some ''a.wav''
   \<and> map_of (fs notes_world) ''./incoming_audio/a.wav'' = Some (File ''my own recording'')
   \<and> map_of (fs (snd (main example_config flaky_services [] notes_world)))
        ''./incoming_audio/a.wav'' = None"
  by code_simp

text \<open>
  C6, amended. When the consolidated transcript does not exist and the transcriber fails
  for a file of the batch, the run ends with an error in the world the batch left: no
  summary was requested and nothing was moved, the summary file and the consolidated
  file are as before (absent, for the latter), every node that existed and is not at the
  \<^verbatim>\<open>.wav\<close> name of a submitted file is unchanged, in particular every \<^verbatim>\<open>.m4a\<close> file and
  every \<^verbatim>\<open>.txt\<close> entry, and each task that returned a text has left an entry holding it.
\<close>

theorem C6_failed_batch_stops_before_finalizer:
  assumes "\<not> path_exists (consolidated_transcript_file cfg) w"
    and "run_batch cfg sv sched w = (Inr futures, w2)"
    and "Some (Inl (TranscriptionError q)) \<in> set futures"
  shows "(\<exists>e. main cfg sv sched w = (Inl e, w2))
       \<and> extends batch_event w w2
       \<and> map_of (fs w2) (summary_action_file cfg) = map_of (fs w) (summary_action_file cfg)
       \<and> map_of (fs w2) (consolidated_transcript_file cfg) = None
       \<and> (\<forall>p n. map_of (fs w) p = Some n
             \<longrightarrow> p \<notin> wav_path_of ` set (batch_paths cfg w)
             \<longrightarrow> map_of (fs w2) p = Some n)
       \<and> (\<forall>p n. map_of (fs w) p = Some n \<longrightarrow> suffix ''.m4a'' p \<longrightarrow> map_of (fs w2) p = Some n)
       \<and> (\<forall>p n. map_of (fs w) p = Some n \<longrightarrow> suffix ''.txt'' p \<longrightarrow> map_of (fs w2) p = Some n)
       \<and> (\<forall>i<length (batch_paths cfg w). \<forall>t. futures ! i = Some (Inr t) \<longrightarrow>
             map_of (fs w2) (transcript_path_of cfg (batch_paths cfg w ! i)) = Some (File t)
           \<or> map_of (fs w2) (transcript_path_of cfg (wav_path_of (batch_paths cfg w ! i)))
               = Some (File t))"
proof -
  let ?W = "wav_path_of ` set (batch_paths cfg w)"
  let ?K = "(\<lambda>f. transcript_path_of cfg (wav_path_of f)) ` set (batch_paths cfg w)"
  obtain e where g: "gather futures [] = Inl e" using gather_fails [OF assms(3)] by blast
  have "main_transcribe cfg sv sched w = (Inl e, w2)"
    using assms(1,2) g by (simp add: main_transcribe_def)
  then have a: "\<exists>e. main cfg sv sched w = (Inl e, w2)" by (simp add: main_def)
  have st: "steps ?W ?K batch_event w w2" using run_batch_steps [of cfg w sv sched] assms(2) by simp
  have b: "extends batch_event w w2" using st by (simp add: steps_def)
  have "summary_action_file cfg \<notin> ?W \<union> ?K"
    using summary_md [of cfg] md_not_wav md_not_txt batch_wavs batch_keys by blast
  then have c: "map_of (fs w2) (summary_action_file cfg) = map_of (fs w) (summary_action_file cfg)"
    using st by (simp add: steps_def)
  have "consolidated_transcript_file cfg \<notin> ?W \<union> ?K"
    using consolidated_md [of cfg] md_not_wav md_not_txt batch_wavs batch_keys by blast
  then have "map_of (fs w2) (consolidated_transcript_file cfg)
               = map_of (fs w) (consolidated_transcript_file cfg)"
    using st by (simp add: steps_def)
  then have d: "map_of (fs w2) (consolidated_transcript_file cfg) = None"
    using assms(1) by (simp add: path_exists_def)
  have f: "\<forall>p n. map_of (fs w) p = Some n \<longrightarrow> p \<notin> ?W \<longrightarrow> map_of (fs w2) p = Some n"
    using st by (simp add: steps_def)
  have g1: "\<forall>p n. map_of (fs w) p = Some n \<longrightarrow> suffix ''.m4a'' p \<longrightarrow> map_of (fs w2) p = Some n"
    using f m4a_not_wav_path by blast
  have g2: "\<forall>p n. map_of (fs w) p = Some n \<longrightarrow> suffix ''.txt'' p \<longrightarrow> map_of (fs w2) p = Some n"
    using f batch_wavs txt_not_wav by blast
  have h: "\<forall>i<length (batch_paths cfg w). \<forall>t. futures ! i = Some (Inr t) \<longrightarrow>
             map_of (fs w2) (transcript_path_of cfg (batch_paths cfg w ! i)) = Some (File t)
           \<or> map_of (fs w2) (transcript_path_of cfg (wav_path_of (batch_paths cfg w ! i)))
               = Some (File t)"
    using batch_entries [OF assms(2)] .
  show ?thesis using a b c d f g1 g2 h by blast
qed

theorem C6_witness:
  "\<not> path_exists (consolidated_transcript_file example_config) notes_world
   \<and> fst (run_batch example_config flaky_services [] notes_world)
       = Inr [Some (Inr ''text of wav:A''), Some (Inl (TranscriptionError ''./incoming_audio/c.wav''))]
   \<and> fst (main example_config flaky_services [] notes_world)
       = Inl (TranscriptionError ''./incoming_audio/c.wav'')
   \<and> map_of (fs (snd (run_batch example_config flaky_services [] notes_world)))
        ''./incoming_audio/a.m4a'' = Some (File ''A'')
   \<and> map_of (fs (snd (run_batch example_config flaky_services [] notes_world)))
        (summary_action_file example_config) = None"
proof -
  have h1: "\<not> path_exists (consolidated_transcript_file example_config) notes_world"
    by code_simp
  have h2: "fst (run_batch example_config flaky_services [] notes_world)
       = Inr [Some (Inr ''text of wav:A''), Some (Inl (TranscriptionError ''./incoming_audio/c.wav''))]"
    by code_simp
  have h2': "run_batch example_config flaky_services [] notes_world
       = (Inr [Some (Inr ''text of wav:A''),
               Some (Inl (TranscriptionError ''./incoming_audio/c.wav''))],
          snd (run_batch example_config flaky_services [] notes_world))"
    using h2 by (metis prod.collapse)
  have h3: "Some (Inl (TranscriptionError ''./incoming_audio/c.wav''))
              \<in> set [Some (Inr ''text of wav:A''),
                     Some (Inl (TranscriptionError ''./incoming_audio/c.wav''))]"
    by simp
  have e1: "fst (main example_config flaky_services [] notes_world)
       = Inl (TranscriptionError ''./incoming_audio/c.wav'')"
    by code_simp
  have e2: "map_of (fs notes_world) ''./incoming_audio/a.m4a'' = Some (File ''A'')" by code_simp
  have e3: "suffix ''.m4a'' ''./incoming_audio/a.m4a''" by code_simp
  have e4: "map_of (fs notes_world) (summary_action_file example_config) = None" by code_simp
  show ?thesis
    using h1 h2 e1 e2 e3 e4 C6_failed_batch_stops_before_finalizer [OF h1 h2' h3]
    by simp
qed

subsection \<open>The finaliser\<close>



subsection \<open>The converted file\<close>



subsection \<open>Empty transcripts\<close>

text \<open>
  C9. When the consolidated transcript does not exist and the tasks of the batch return
  the texts \<open>ts\<close> (in the order of their submission), the transcription stage returns,
  and writes to the consolidated file, the blank-line join of the non-empty texts among
  \<open>ts\<close>, in that order: an empty text contributes neither text nor separator.
\<close>

theorem C9_empty_transcripts_left_out:
  assumes "\<not> path_exists (consolidated_transcript_file cfg) w"
    and "run_batch cfg sv sched w = (Inr (map (\<lambda>t. Some (Inr t)) ts), w2)"
  shows "fst (main_transcribe cfg sv sched w)
           = Inr (str_join ''\<newline>\<newline>'' (filter (\<lambda>t. t \<noteq> []) ts))
       \<and> map_of (fs (snd (main_transcribe cfg sv sched w))) (consolidated_transcript_file cfg)
           = Some (File (str_join ''\<newline>\<newline>'' (filter (\<lambda>t. t \<noteq> []) ts)))"
  using main_transcribe_fresh [OF assms gather_texts] by (simp add: update_conv')

theorem C9_witness:
  "\<not> path_exists (consolidated_transcript_file example_config) example_world
   \<and> fst (run_batch example_config example_services [] example_world)
       = Inr (map (\<lambda>t. Some (Inr t)) [''text of wav:A'', []])
   \<and> fst (main_transcribe example_config example_services [] example_world)
       = Inr ''text of wav:A''"
proof -
  have h1: "\<not> path_exists (consolidated_transcript_file example_config) example_world"
    by code_simp
  have h2: "fst (run_batch example_config example_services [] example_world)
       = Inr (map (\<lambda>t. Some (Inr t)) [''text of wav:A'', []])"
    by code_simp
  have h3: "run_batch example_config example_services [] example_world
       = (Inr (map (\<lambda>t. Some (Inr t)) [''text of wav:A'', []]),
          snd (run_batch example_config example_services [] example_world))"
    using h2 by (metis prod.collapse)
  show ?thesis
    using h1 h2 C9_empty_transcripts_left_out [OF h1 h3] by simp
qed

subsection \<open>What clearing leaves alone\<close>

text \<open>
  C10. After a successful run every path is a directory exactly when it was one before,
  so no subdirectory is removed; every path that is not an entry of the input or of the
  cache directory, not one of the output files, and not the \<^verbatim>\<open>.wav\<close> name of a
  submitted file is as it was. Clearing a directory changes only paths that were regular
  files directly in it, and it removes them; a path below a subdirectory of a directory
  is not an entry of that directory.
\<close>

theorem C10_clearing_spares_subdirectories:
  assumes "main cfg sv sched w = (Inr u, w')"
  shows "(\<forall>p. isdir p w' = isdir p w)
       \<and> (\<forall>p. child_name (incoming_bucket cfg) p = None
             \<longrightarrow> child_name (intermediate_transcripts cfg) p = None
             \<longrightarrow> p \<noteq> summary_action_file cfg \<longrightarrow> p \<noteq> transcript_file cfg
             \<longrightarrow> p \<noteq> path_join (transcript_file cfg) (basename (consolidated_transcript_file cfg))
             \<longrightarrow> p \<notin> wav_path_of ` set (batch_paths cfg w)
             \<longrightarrow> map_of (fs w') p = map_of (fs w) p)
       \<and> (\<forall>d w0 r w1 p. clear_directory d w0 = (r, w1)
             \<longrightarrow> map_of (fs w1) p \<noteq> map_of (fs w0) p
             \<longrightarrow> child_name d p \<noteq> None \<and> isfile p w0 \<and> map_of (fs w1) p = None)
       \<and> (\<forall>d sub rest. child_name d (dir_prefix d @ sub @ ''/'' @ rest) = None)"
proof -
  let ?W = "wav_path_of ` set (batch_paths cfg w)"
  let ?K = "insert (consolidated_transcript_file cfg)
              ((\<lambda>f. transcript_path_of cfg (wav_path_of f)) ` set (batch_paths cfg w))"
  obtain c w1 where mt: "main_transcribe cfg sv sched w = (Inr c, w1)"
      and mf: "main_finalize cfg sv c w1 = (Inr u, w')"
    using main_success [OF assms] by blast
  have st: "steps ?W ?K batch_event w w1" using main_transcribe_steps [of cfg w sv sched] mt by simp
  have fr: "(\<forall>p. isdir p w' = isdir p w1)
       \<and> (\<forall>p. child_name (incoming_bucket cfg) p = None
             \<longrightarrow> child_name (intermediate_transcripts cfg) p = None
             \<longrightarrow> p \<noteq> summary_action_file cfg \<longrightarrow> p \<noteq> transcript_file cfg
             \<longrightarrow> p \<noteq> path_join (transcript_file cfg) (basename (consolidated_transcript_file cfg))
             \<longrightarrow> map_of (fs w') p = map_of (fs w1) p)"
    using main_finalize_frame [OF mf] .
  have a: "\<forall>p. isdir p w' = isdir p w" using fr st by (simp add: steps_def)
  have b: "\<forall>p. child_name (incoming_bucket cfg) p = None
             \<longrightarrow> child_name (intermediate_transcripts cfg) p = None
             \<longrightarrow> p \<noteq> summary_action_file cfg \<longrightarrow> p \<noteq> transcript_file cfg
             \<longrightarrow> p \<noteq> path_join (transcript_file cfg) (basename (consolidated_transcript_file cfg))
             \<longrightarrow> p \<notin> ?W
             \<longrightarrow> map_of (fs w') p = map_of (fs w) p"
  proof (intro allI impI)
    fix p
    assume h: "child_name (incoming_bucket cfg) p = None"
      "child_name (intermediate_transcripts cfg) p = None"
      "p \<noteq> summary_action_file cfg" "p \<noteq> transcript_file cfg"
      "p \<noteq> path_join (transcript_file cfg) (basename (consolidated_transcript_file cfg))"
      "p \<notin> ?W"
    have "p \<notin> ?K" using h(2) consolidated_child [of cfg] transcript_path_child by force
    then have "map_of (fs w1) p = map_of (fs w) p" using st h(6) by (simp add: steps_def)
    then show "map_of (fs w') p = map_of (fs w) p" using fr h by simp
  qed
  have c: "\<forall>d w0 r w1 p. clear_directory d w0 = (r, w1)
             \<longrightarrow> map_of (fs w1) p \<noteq> map_of (fs w0) p
             \<longrightarrow> child_name d p \<noteq> None \<and> isfile p w0 \<and> map_of (fs w1) p = None"
    using clear_directory_changes by blast
  have d: "\<forall>d sub rest. child_name d (dir_prefix d @ sub @ ''/'' @ rest) = None"
    using nested_not_child by blast
  show ?thesis using a b c d by blast
qed

theorem C10_witness:
  "fst (main example_config example_services [1] example_world) = Inr ()
   \<and> isdir ''./incoming_audio/sub'' (snd (main example_config example_services [1] example_world))
   \<and> map_of (fs (snd (main example_config example_services [1] example_world)))
        ''./incoming_audio/sub/c.m4a'' = Some (File ''C'')"
proof -
  have h1: "fst (main example_config example_services [1] example_world) = Inr ()"
    by code_simp
  have h1': "main example_config example_services [1] example_world
               = (Inr (), snd (main example_config example_services [1] example_world))"
    using h1 by (metis prod.collapse)
  have e1: "isdir ''./incoming_audio/sub'' example_world" by code_simp
  have e2: "map_of (fs example_world) ''./incoming_audio/sub/c.m4a'' = Some (File ''C'')"
    by code_simp
  have e3: "child_name (incoming_bucket example_config) ''./incoming_audio/sub/c.m4a'' = None"
    by code_simp
  have e4: "child_name (intermediate_transcripts example_config) ''./incoming_audio/sub/c.m4a'' = None"
    by code_simp
  have e5: "''./incoming_audio/sub/c.m4a'' \<noteq> summary_action_file example_config" by code_simp
  have e6: "''./incoming_audio/sub/c.m4a'' \<noteq> transcript_file example_config" by code_simp
  have e7: "''./incoming_audio/sub/c.m4a''
              \<noteq> path_join (transcript_file example_config)
                    (basename (consolidated_transcript_file example_config))"
    by code_simp
  have e8: "''./incoming_audio/sub/c.m4a''
              \<notin> wav_path_of ` set (batch_paths example_config example_world)"
    by code_simp
  show ?thesis
    using h1 e1 e2 e3 e4 e5 e6 e7 e8 C10_clearing_spares_subdirectories [OF h1']
    by simp
qed

end
